theory Spec2Isabelle
  imports Complex_Main "HOL-Library.Word"
begin

section \<open>The wordmark approval ledger (google-apps-script.js)\<close>

text \<open>
  The script serves three actions (submit, check, download) against one sheet of a
  spreadsheet, the approval ledger. The embedding below follows the script function by
  function. A JavaScript string is the list of its 16-bit code units. A request
  parameter is a string or absent, as query parameters are. A sheet is the list of its
  rows, the header row first, each row the list of its cells; a cell holds a string, and
  the sheet hands back the strings that were written to it.
\<close>

subsection \<open>Strings of the runtime\<close>

type_synonym codeUnit = "16 word"

type_synonym jsString = "codeUnit list"

text \<open>A string literal of the source; all of them are ASCII.\<close>

definition js :: "string \<Rightarrow> jsString" where
  "js s = map (\<lambda>c. of_nat (of_char c)) s"

text \<open>
  The white space and the line terminators of ECMAScript, which \<open>trim\<close> strips from
  both ends: TAB, LF, VT, FF, CR, SPACE, NO-BREAK SPACE, OGHAM SPACE MARK, EN QUAD to HAIR
  SPACE, LINE SEPARATOR, PARAGRAPH SEPARATOR, NARROW NO-BREAK SPACE, MEDIUM MATHEMATICAL
  SPACE, IDEOGRAPHIC SPACE and ZERO WIDTH NO-BREAK SPACE. Each is one code unit.
\<close>

definition isWhiteSpace :: "codeUnit \<Rightarrow> bool" where
  "isWhiteSpace c =
     (c = 0x0009 \<or> c = 0x000A \<or> c = 0x000B \<or> c = 0x000C \<or> c = 0x000D \<or> c = 0x0020 \<or>
      c = 0x00A0 \<or> c = 0x1680 \<or> (0x2000 \<le> c \<and> c \<le> 0x200A) \<or> c = 0x2028 \<or>
      c = 0x2029 \<or> c = 0x202F \<or> c = 0x205F \<or> c = 0x3000 \<or> c = 0xFEFF)"

definition trim :: "jsString \<Rightarrow> jsString" where
  "trim s = rev (dropWhile isWhiteSpace (rev (dropWhile isWhiteSpace s)))"

text \<open>
  \<open>toUpperCase\<close> and \<open>toLowerCase\<close> apply the case conversion tables of the Unicode
  standard, which are part of the runtime and not of the script. They are taken as they
  come: the two functions are parameters of the embedding.
\<close>

record runtime =
  toUpperCase :: "jsString \<Rightarrow> jsString"
  toLowerCase :: "jsString \<Rightarrow> jsString"

text \<open>\<open>s.charAt(k)\<close>: the one-character string at index \<open>k\<close>, the empty string out of range.\<close>

definition charAt :: "jsString \<Rightarrow> nat \<Rightarrow> jsString" where
  "charAt s k = (if k < length s then [s ! k] else [])"

text \<open>\<open>v || d\<close> on a parameter: an absent parameter and the empty string are falsy.\<close>

definition orElse :: "jsString option \<Rightarrow> jsString \<Rightarrow> jsString" where
  "orElse v d = (case v of None \<Rightarrow> d | Some s \<Rightarrow> if s = [] then d else s)"

text \<open>\<open>lines.filter(Boolean).join('\n')\<close>\<close>

fun joinLines :: "jsString list \<Rightarrow> jsString" where
  "joinLines [] = []"
| "joinLines [l] = l"
| "joinLines (l # ls) = l @ [0x000A] @ joinLines ls"

definition filterBoolean :: "jsString list \<Rightarrow> jsString list" where
  "filterBoolean ls = filter (\<lambda>l. l \<noteq> []) ls"

subsection \<open>Data model\<close>

type_synonym row = "jsString list"

text \<open>
  What the script holds and touches: the sheet that \<open>getSheet\<close> resolves to, the mails
  handed to \<open>MailApp.sendEmail\<close>, and the lines given to \<open>Logger.log\<close>.
\<close>

record world =
  sheet :: "row list"
  outbox :: "(jsString \<times> jsString \<times> jsString) list"
  logged :: "jsString list"

text \<open>
  What one call draws from its surroundings: \<open>mathRandom k\<close> is the value of the
  \<open>k\<close>-th call of \<open>Math.random()\<close>, \<open>isoNow\<close> the value of
  \<open>new Date().toISOString()\<close>, and \<open>mailError\<close> is \<open>Some msg\<close> when
  \<open>MailApp.sendEmail\<close> throws an error with message \<open>msg\<close>.
\<close>

record env =
  mathRandom :: "nat \<Rightarrow> real"
  isoNow :: jsString
  mailError :: "jsString option"

record params =
  action :: "jsString option"
  email :: "jsString option"
  icon :: "jsString option"
  line1 :: "jsString option"
  line2 :: "jsString option"
  line3 :: "jsString option"
  layout :: "jsString option"
  requestId :: "jsString option"

text \<open>
  The objects the actions return: \<open>{success: false, error}\<close>,
  \<open>{success: true, requestId, message}\<close>, \<open>{success: true, status, canDownload}\<close> and
  \<open>{success: true, canDownload}\<close>.
\<close>

datatype response =
  Failure jsString
  | SubmitOk jsString jsString
  | CheckOk jsString bool
  | DownloadOk bool

definition NOTIFY_EMAIL :: jsString where
  "NOTIFY_EMAIL = js ''ochavisual@un.org''"

subsection \<open>The sheet\<close>

text \<open>
  \<open>getSheet\<close> picks the tab named \<open>Requests\<close>, or the first tab when there is none of
  that name. No action adds, removes or renames a tab, so every call resolves to the same
  sheet: the \<open>sheet\<close> field of the world.
\<close>

definition getSheet :: "world \<Rightarrow> row list" where
  "getSheet w = sheet w"

text \<open>\<open>data[i][j] || ''\<close>: a cell beyond the end of the row reads as undefined.\<close>

definition cellAt :: "row \<Rightarrow> nat \<Rightarrow> jsString" where
  "cellAt r j = (if j < length r then r ! j else [])"

definition appendRow :: "row \<Rightarrow> world \<Rightarrow> world" where
  "appendRow r w = w\<lparr>sheet := sheet w @ [r]\<rparr>"

text \<open>
  \<open>sheet.getRange(r, c).setValue(v)\<close>, rows and columns counted from 1; a cell beyond
  the content of the sheet comes into being, the cells before it empty.
\<close>

definition padTo :: "nat \<Rightarrow> 'a \<Rightarrow> 'a list \<Rightarrow> 'a list" where
  "padTo n d xs = xs @ replicate (n - length xs) d"

definition setValue :: "nat \<Rightarrow> nat \<Rightarrow> jsString \<Rightarrow> world \<Rightarrow> world" where
  "setValue r c v w =
     (let rows = padTo r [] (sheet w);
          old = padTo c [] (rows ! (r - 1))
      in w\<lparr>sheet := rows[r - 1 := old[c - 1 := v]]\<rparr>)"

definition sendEmail :: "env \<Rightarrow> jsString \<Rightarrow> jsString \<Rightarrow> jsString \<Rightarrow> world \<Rightarrow> jsString + world" where
  "sendEmail e to subject body w =
     (case mailError e of
        Some msg \<Rightarrow> Inl msg
      | None \<Rightarrow> Inr (w\<lparr>outbox := outbox w @ [(to, subject, body)]\<rparr>))"

definition loggerLog :: "jsString \<Rightarrow> world \<Rightarrow> world" where
  "loggerLog l w = w\<lparr>logged := logged w @ [l]\<rparr>"

subsection \<open>generateRequestId\<close>

definition chars :: jsString where
  "chars = js ''ABCDEFGHJKLMNPQRSTUVWXYZ23456789''"

function generateLoop :: "(nat \<Rightarrow> real) \<Rightarrow> nat \<Rightarrow> jsString \<Rightarrow> jsString" where
  "generateLoop rnd i ident =
     (if i < 6
      then generateLoop rnd (i + 1)
             (ident @ charAt chars (nat \<lfloor>rnd i * real (length chars)\<rfloor>))
      else ident)"
  by pat_completeness auto
termination
  by (relation "measure (\<lambda>(rnd, i, ident). 6 - i)") auto

definition generateRequestId :: "env \<Rightarrow> jsString" where
  "generateRequestId e = generateLoop (mathRandom e) 0 (js ''WM-'')"

subsection \<open>submitRequest\<close>

definition requiredSubmit :: jsString where
  "requiredSubmit = js ''Email, icon, and at least line 1 are required.''"

definition submittedMessage :: jsString where
  "submittedMessage = js ''Request submitted. You will receive an email when approved.''"

definition mailSubject :: "jsString \<Rightarrow> jsString \<Rightarrow> jsString" where
  "mailSubject rid em = js ''Wordmark request '' @ rid @ js '' from '' @ em"

definition mailBody ::
  "jsString \<Rightarrow> jsString \<Rightarrow> jsString \<Rightarrow> jsString \<Rightarrow> jsString \<Rightarrow> jsString \<Rightarrow> jsString \<Rightarrow> jsString" where
  "mailBody rid em ic lay l1 l2 l3 =
     joinLines (filterBoolean
       [js ''New wordmark request:'',
        [],
        js ''Request ID: '' @ rid,
        js ''Email: '' @ em,
        js ''Icon: '' @ ic,
        js ''Layout: '' @ lay @ js '' line(s)'',
        js ''Line 1: '' @ l1,
        (if l2 \<noteq> [] then js ''Line 2: '' @ l2 else []),
        (if l3 \<noteq> [] then js ''Line 3: '' @ l3 else []),
        [],
        js ''To approve, open the Google Sheet and change the Status column from ''
          @ [0x0022] @ js ''Pending'' @ [0x0022] @ js '' to '' @ [0x0022] @ js ''Approved''
          @ [0x0022] @ js ''.''])"

definition submitRequest :: "env \<Rightarrow> params \<Rightarrow> world \<Rightarrow> response \<times> world" where
  "submitRequest e p w =
     (let rid = generateRequestId e;
          timestamp = isoNow e;
          em = trim (orElse (email p) []);
          ic = trim (orElse (icon p) []);
          l1 = trim (orElse (line1 p) []);
          l2 = trim (orElse (line2 p) []);
          l3 = trim (orElse (line3 p) []);
          lay = trim (orElse (layout p) (js ''1''))
      in if em = [] \<or> ic = [] \<or> l1 = []
         then (Failure requiredSubmit, w)
         else
           let w1 = appendRow [timestamp, em, ic, l1, l2, l3, lay, rid, js ''Pending'', []] w;
               w2 = (case sendEmail e NOTIFY_EMAIL (mailSubject rid em)
                            (mailBody rid em ic lay l1 l2 l3) w1 of
                       Inr w' \<Rightarrow> w'
                     | Inl msg \<Rightarrow> loggerLog (js ''Email notification failed: '' @ msg) w1)
           in (SubmitOk rid submittedMessage, w2))"

subsection \<open>checkStatus\<close>

definition requiredLookup :: jsString where
  "requiredLookup = js ''Request ID and email are required.''"

definition notFoundCheck :: jsString where
  "notFoundCheck = js ''Request not found. Check your Request ID and email.''"

function checkLoop :: "runtime \<Rightarrow> jsString \<Rightarrow> jsString \<Rightarrow> row list \<Rightarrow> nat \<Rightarrow> response" where
  "checkLoop rt rid em data i =
     (if i < length data
      then
        let rowId = toUpperCase rt (trim (cellAt (data ! i) 7));
            rowEmail = toLowerCase rt (trim (cellAt (data ! i) 1))
        in if rowId = rid \<and> rowEmail = em
           then
             let status = trim (cellAt (data ! i) 8)
             in CheckOk status (status = js ''Approved'')
           else checkLoop rt rid em data (i + 1)
      else Failure notFoundCheck)"
  by pat_completeness auto
termination
  by (relation "measure (\<lambda>(rt, rid, em, data, i). length data - i)") auto

definition checkStatus :: "runtime \<Rightarrow> params \<Rightarrow> world \<Rightarrow> response \<times> world" where
  "checkStatus rt p w =
     (let rid = toUpperCase rt (trim (orElse (requestId p) []));
          em = toLowerCase rt (trim (orElse (email p) []))
      in if rid = [] \<or> em = []
         then (Failure requiredLookup, w)
         else (checkLoop rt rid em (getSheet w) 1, w))"

subsection \<open>markDownloaded\<close>

definition alreadyDownloaded :: jsString where
  "alreadyDownloaded =
     js ''This wordmark has already been downloaded. Contact ochavisual@un.org for another download.''"

definition notApproved :: jsString where
  "notApproved = js ''This request is not yet approved.''"

definition notFoundDownload :: jsString where
  "notFoundDownload = js ''Request not found.''"

text \<open>
  The loop runs over \<open>data\<close>, the rows that \<open>getValues\<close> returned, and writes to the
  sheet as it is when the loop runs.
\<close>

function markLoop ::
  "runtime \<Rightarrow> env \<Rightarrow> jsString \<Rightarrow> jsString \<Rightarrow> row list \<Rightarrow> nat \<Rightarrow> world \<Rightarrow> response \<times> world" where
  "markLoop rt e rid em data i w =
     (if i < length data
      then
        let rowId = toUpperCase rt (trim (cellAt (data ! i) 7));
            rowEmail = toLowerCase rt (trim (cellAt (data ! i) 1))
        in if rowId = rid \<and> rowEmail = em
           then
             let status = trim (cellAt (data ! i) 8)
             in if status = js ''Downloaded'' then (Failure alreadyDownloaded, w)
                else if status \<noteq> js ''Approved'' then (Failure notApproved, w)
                else (DownloadOk True,
                      setValue (i + 1) 10 (isoNow e) (setValue (i + 1) 9 (js ''Downloaded'') w))
           else markLoop rt e rid em data (i + 1) w
      else (Failure notFoundDownload, w))"
  by pat_completeness auto
termination
  by (relation "measure (\<lambda>(rt, e, rid, em, data, i, w). length data - i)") auto

definition markDownloaded :: "runtime \<Rightarrow> env \<Rightarrow> params \<Rightarrow> world \<Rightarrow> response \<times> world" where
  "markDownloaded rt e p w =
     (let rid = toUpperCase rt (trim (orElse (requestId p) []));
          em = toLowerCase rt (trim (orElse (email p) []))
      in if rid = [] \<or> em = []
         then (Failure requiredLookup, w)
         else markLoop rt e rid em (getSheet w) 1 w)"

subsection \<open>handleRequest\<close>

definition handleRequest :: "runtime \<Rightarrow> env \<Rightarrow> params \<Rightarrow> world \<Rightarrow> response \<times> world" where
  "handleRequest rt e p w =
     (if action p = Some (js ''submit'') then submitRequest e p w
      else if action p = Some (js ''check'') then checkStatus rt p w
      else if action p = Some (js ''download'') then markDownloaded rt e p w
      else (Failure (js ''Unknown action''), w))"

subsection \<open>Notions used in the statements\<close>

text \<open>
  What the statements use of the case conversion of the runtime: it maps no string but
  the empty one to the empty string, and on a string of ASCII characters it maps the
  letters \<open>a\<close> to \<open>z\<close> and \<open>A\<close> to \<open>Z\<close> and leaves the rest.
\<close>

definition isAscii :: "codeUnit \<Rightarrow> bool" where
  "isAscii c = (c < 0x0080)"

definition asciiUpper :: "codeUnit \<Rightarrow> codeUnit" where
  "asciiUpper c = (if 0x0061 \<le> c \<and> c \<le> 0x007A then c - 0x0020 else c)"

definition asciiLower :: "codeUnit \<Rightarrow> codeUnit" where
  "asciiLower c = (if 0x0041 \<le> c \<and> c \<le> 0x005A then c + 0x0020 else c)"

definition unicodeCase :: "runtime \<Rightarrow> bool" where
  "unicodeCase rt =
     ((\<forall>s. (toUpperCase rt s = []) = (s = [])) \<and>
      (\<forall>s. (toLowerCase rt s = []) = (s = [])) \<and>
      (\<forall>s. list_all isAscii s \<longrightarrow>
         toUpperCase rt s = map asciiUpper s \<and> toLowerCase rt s = map asciiLower s))"

text \<open>The credentials as \<open>checkStatus\<close> and \<open>markDownloaded\<close> normalise them.\<close>

definition normalizedId :: "runtime \<Rightarrow> params \<Rightarrow> jsString" where
  "normalizedId rt p = toUpperCase rt (trim (orElse (requestId p) []))"

definition normalizedEmail :: "runtime \<Rightarrow> params \<Rightarrow> jsString" where
  "normalizedEmail rt p = toLowerCase rt (trim (orElse (email p) []))"

text \<open>The comparison both loops make on a row: column H against the id, column B against the email.\<close>

definition matches :: "runtime \<Rightarrow> jsString \<Rightarrow> jsString \<Rightarrow> row \<Rightarrow> bool" where
  "matches rt rid em r =
     (toUpperCase rt (trim (cellAt r 7)) = rid \<and> toLowerCase rt (trim (cellAt r 1)) = em)"

text \<open>
  Row \<open>i\<close> is the record the credentials of \<open>p\<close> address: a data row (the header row
  is row 0) that matches them, no data row before it matching, the credentials not empty.
\<close>

definition locatedAt :: "runtime \<Rightarrow> params \<Rightarrow> row list \<Rightarrow> nat \<Rightarrow> bool" where
  "locatedAt rt p data i =
     (1 \<le> i \<and> i < length data \<and> normalizedId rt p \<noteq> [] \<and> normalizedEmail rt p \<noteq> [] \<and>
      matches rt (normalizedId rt p) (normalizedEmail rt p) (data ! i) \<and>
      (\<forall>j\<in>{1..<i}. \<not> matches rt (normalizedId rt p) (normalizedEmail rt p) (data ! j)))"

text \<open>The status of a record as the script reads it (column I, trimmed), and column J.\<close>

definition statusOf :: "row \<Rightarrow> jsString" where
  "statusOf r = trim (cellAt r 8)"

definition downloadedAtOf :: "row \<Rightarrow> jsString" where
  "downloadedAtOf r = cellAt r 9"

text \<open>\<open>WM-\<close> and six characters of the alphabet.\<close>

definition wellFormedId :: "jsString \<Rightarrow> bool" where
  "wellFormedId s =
     (length s = 9 \<and> take 3 s = js ''WM-'' \<and> list_all (\<lambda>c. c \<in> set chars) (drop 3 s))"

text \<open>A submission that passes the validation of \<open>submitRequest\<close>.\<close>

definition validSubmission :: "params \<Rightarrow> bool" where
  "validSubmission p =
     (trim (orElse (email p) []) \<noteq> [] \<and> trim (orElse (icon p) []) \<noteq> [] \<and>
      trim (orElse (line1 p) []) \<noteq> [])"

text \<open>
  The record of a submission: the ten cells from the time stamp to the download time,
  the fields trimmed, the layout \<open>1\<close> when none is given, the status \<open>Pending\<close>, the
  download time empty.
\<close>

definition submittedRow :: "env \<Rightarrow> params \<Rightarrow> row" where
  "submittedRow e p =
     [isoNow e, trim (orElse (email p) []), trim (orElse (icon p) []),
      trim (orElse (line1 p) []), trim (orElse (line2 p) []), trim (orElse (line3 p) []),
      trim (orElse (layout p) (js ''1'')), generateRequestId e, js ''Pending'', []]"

text \<open>
  A record after its download at time \<open>now\<close>: the status cell holds \<open>Downloaded\<close>,
  the download-time cell holds \<open>now\<close>, every other cell is as it was; a row shorter
  than ten cells has grown to ten.
\<close>

definition markedRow :: "jsString \<Rightarrow> row \<Rightarrow> row" where
  "markedRow now r =
     map (\<lambda>c. if c = 9 then now else if c = 8 then js ''Downloaded'' else cellAt r c)
       [0..<max 10 (length r)]"

text \<open>\<open>Math.random()\<close> returns a number from 0 up to but not including 1.\<close>

definition randomInRange :: "env \<Rightarrow> bool" where
  "randomInRange e = (\<forall>k\<in>{0..<6}. 0 \<le> mathRandom e k \<and> mathRandom e k < 1)"

text \<open>A row has a download time exactly when its status is \<open>Downloaded\<close>; so has every data row.\<close>

definition rowConsistent :: "row \<Rightarrow> bool" where
  "rowConsistent r = ((downloadedAtOf r \<noteq> []) = (statusOf r = js ''Downloaded''))"

definition ledgerInvariant :: "row list \<Rightarrow> bool" where
  "ledgerInvariant data = (\<forall>i\<in>{1..<length data}. rowConsistent (data ! i))"

text \<open>
  How a ledger \<open>s'\<close> may differ from the ledger \<open>s\<close> one call earlier, \<open>now\<close> the
  time of the call: no row is lost; an old row is as it was or is the row marked
  downloaded at \<open>now\<close>; a new row is pending with no download time; no download time
  is cleared; a data row that was consistent is consistent, and so is every new row.
\<close>

definition ledgerStep :: "jsString \<Rightarrow> row list \<Rightarrow> row list \<Rightarrow> bool" where
  "ledgerStep now s s' =
     (length s \<le> length s' \<and>
      (\<forall>i. i < length s \<longrightarrow> s' ! i = s ! i \<or> s' ! i = markedRow now (s ! i)) \<and>
      (\<forall>i. length s \<le> i \<and> i < length s' \<longrightarrow>
         cellAt (s' ! i) 8 = js ''Pending'' \<and> downloadedAtOf (s' ! i) = []) \<and>
      (\<forall>i. i < length s \<and> downloadedAtOf (s ! i) \<noteq> [] \<longrightarrow> downloadedAtOf (s' ! i) \<noteq> []) \<and>
      (\<forall>i. i < length s \<and> rowConsistent (s ! i) \<longrightarrow> rowConsistent (s' ! i)) \<and>
      (\<forall>i. length s \<le> i \<and> i < length s' \<longrightarrow> rowConsistent (s' ! i)))"

text \<open>A run of \<open>check\<close> calls, one after the other: the responses and the world left behind.\<close>

fun checkAll :: "runtime \<Rightarrow> params list \<Rightarrow> world \<Rightarrow> response list \<times> world" where
  "checkAll rt [] w = ([], w)"
| "checkAll rt (p # ps) w =
     (let (r, w1) = checkStatus rt p w; (rs, w2) = checkAll rt ps w1 in (r # rs, w2))"

text \<open>
  Two calls of \<open>markDownloaded\<close> with the same parameters that run at the same time,
  in the order in which nothing in the script prevents them from running: the first call
  reads the rows, the second call reads the rows, the first call runs its loop and
  writes, the second call runs its loop, on the rows it read, and writes.
\<close>

definition bothReadThenWrite ::
  "runtime \<Rightarrow> env \<Rightarrow> env \<Rightarrow> params \<Rightarrow> world \<Rightarrow> response \<times> response \<times> world" where
  "bothReadThenWrite rt e1 e2 p w =
     (let rid = toUpperCase rt (trim (orElse (requestId p) []));
          em = toLowerCase rt (trim (orElse (email p) []))
      in if rid = [] \<or> em = []
         then (Failure requiredLookup, Failure requiredLookup, w)
         else
           let data1 = getSheet w;
               data2 = getSheet w;
               (r1, w1) = markLoop rt e1 rid em data1 1 w;
               (r2, w2) = markLoop rt e2 rid em data2 1 w1
           in (r1, r2, w2))"

text \<open>
  A runtime whose case conversion is the one of ASCII, a small ledger, a call environment
  and a request, for evaluating the definitions.
\<close>

definition sampleRuntime :: runtime where
  "sampleRuntime = \<lparr>toUpperCase = map asciiUpper, toLowerCase = map asciiLower\<rparr>"

definition sampleHeader :: row where
  "sampleHeader =
     [js ''Timestamp'', js ''Email'', js ''Icon'', js ''Line 1'', js ''Line 2'', js ''Line 3'',
      js ''Layout'', js ''Request ID'', js ''Status'', js ''Downloaded At'']"

definition sampleRow :: "string \<Rightarrow> string \<Rightarrow> row" where
  "sampleRow em st =
     [js ''2026-01-01T00:00:00.000Z'', js em, js ''Water'', js ''OCHA'', [], [], js ''1'',
      js ''WM-AAAAAA'', js st, []]"

definition sampleLedger :: "row list \<Rightarrow> world" where
  "sampleLedger rows = \<lparr>sheet = sampleHeader # rows, outbox = [], logged = []\<rparr>"

definition sampleWorld :: "string \<Rightarrow> world" where
  "sampleWorld st = sampleLedger [sampleRow ''ana@example.org'' st]"

definition sampleEnv :: "real \<Rightarrow> env" where
  "sampleEnv r =
     \<lparr>mathRandom = (\<lambda>k. r), isoNow = js ''2026-01-02T00:00:00.000Z'', mailError = None\<rparr>"

definition sampleParams :: "jsString \<Rightarrow> jsString \<Rightarrow> params" where
  "sampleParams rid em =
     \<lparr>action = None, email = Some em, icon = Some (js ''Water''), line1 = Some (js ''OCHA''),
      line2 = None, line3 = None, layout = None, requestId = Some rid\<rparr>"

subsection \<open>Auxiliary facts\<close>

declare generateLoop.simps [simp del]
declare checkLoop.simps [simp del]
declare markLoop.simps [simp del]

lemma of_char_small: "(of_char c :: nat) < 65536"
proof -
  have "(of_char c :: nat) < 256"
    by (metis of_char_mod_256 mod_less_divisor zero_less_numeral)
  then show ?thesis by linarith
qed

lemma js_inj [simp]: "(js a = js b) = (a = b)"
proof -
  have "inj (\<lambda>c::char. (of_nat (of_char c) :: codeUnit))"
  proof (rule injI)
    fix x y :: char
    assume eq: "(of_nat (of_char x) :: codeUnit) = of_nat (of_char y)"
    have "unat (of_nat (of_char x) :: codeUnit) = of_char x"
      using of_char_small [of x] by (simp add: unat_of_nat)
    moreover have "unat (of_nat (of_char y) :: codeUnit) = of_char y"
      using of_char_small [of y] by (simp add: unat_of_nat)
    ultimately have "(of_char x :: nat) = of_char y" using eq by metis
    then show "x = y" by (rule of_char_eq_iff [THEN iffD1])
  qed
  then show ?thesis unfolding js_def by (rule inj_map_eq_map)
qed

lemma js_Nil [simp]: "(js a = []) = (a = [])"
  by (simp add: js_def)

lemma dropWhile_hd: "dropWhile P xs = [] \<or> \<not> P (hd (dropWhile P xs))"
  by (metis hd_dropWhile)

lemma dropWhile_noop: "xs = [] \<or> \<not> P (hd xs) \<Longrightarrow> dropWhile P xs = xs"
  by (cases xs) auto

lemma dropWhile_rev_rev:
  assumes "u = [] \<or> \<not> P (hd u)"
  shows "dropWhile P (rev (dropWhile P (rev u))) = rev (dropWhile P (rev u))"
proof (cases "dropWhile P (rev u) = []")
  case True
  then show ?thesis by (simp del: dropWhile_eq_Nil_conv)
next
  case False
  have "rev u = takeWhile P (rev u) @ dropWhile P (rev u)" by simp
  then have "u = rev (dropWhile P (rev u)) @ rev (takeWhile P (rev u))"
    by (metis rev_append rev_rev_ident)
  then have "hd u = hd (rev (dropWhile P (rev u)))"
    using False by (metis hd_append2 rev_is_Nil_conv)
  moreover have "u \<noteq> []" using False by auto
  ultimately have "\<not> P (hd (rev (dropWhile P (rev u))))" using assms by auto
  then show ?thesis by (rule_tac dropWhile_noop) simp
qed

lemma trim_idem: "trim (trim s) = trim s"
proof -
  define u where "u = dropWhile isWhiteSpace s"
  define v where "v = dropWhile isWhiteSpace (rev u)"
  have u: "u = [] \<or> \<not> isWhiteSpace (hd u)" unfolding u_def by (rule dropWhile_hd)
  have v: "v = [] \<or> \<not> isWhiteSpace (hd v)" unfolding v_def by (rule dropWhile_hd)
  have "dropWhile isWhiteSpace (rev v) = rev v"
    unfolding v_def using u by (rule dropWhile_rev_rev)
  moreover have "dropWhile isWhiteSpace v = v" using v by (rule dropWhile_noop)
  ultimately show ?thesis by (simp add: trim_def u_def [symmetric] v_def [symmetric])
qed

lemma dropWhile_none: "\<forall>c\<in>set s. \<not> P c \<Longrightarrow> dropWhile P s = s"
  by (cases s) auto

lemma trim_noop: "\<forall>c\<in>set s. \<not> isWhiteSpace c \<Longrightarrow> trim s = s"
  unfolding trim_def by (simp add: dropWhile_none)

lemma chars_plain:
  "list_all (\<lambda>c. asciiUpper c = c \<and> \<not> isWhiteSpace c \<and> isAscii c) (chars @ js ''WM-'')"
  by (simp add: chars_def js_def asciiUpper_def isWhiteSpace_def isAscii_def)

lemma trim_Downloaded: "trim (js ''Downloaded'') = js ''Downloaded''"
  by (simp add: trim_def isWhiteSpace_def js_def)

lemma trim_Pending: "trim (js ''Pending'') = js ''Pending''"
  by (simp add: trim_def isWhiteSpace_def js_def)

lemma unicodeCase_sample: "unicodeCase sampleRuntime"
  by (simp add: unicodeCase_def sampleRuntime_def)

lemma checkLoop_skip:
  "i \<le> k \<Longrightarrow> k \<le> length data \<Longrightarrow> \<forall>j. i \<le> j \<and> j < k \<longrightarrow> \<not> matches rt rid em (data ! j) \<Longrightarrow>
   checkLoop rt rid em data i = checkLoop rt rid em data k"
proof (induction "k - i" arbitrary: i)
  case 0
  then show ?case by simp
next
  case (Suc n)
  then have lt: "i < k" and nm: "\<not> matches rt rid em (data ! i)" by auto
  have "checkLoop rt rid em data i = checkLoop rt rid em data (i + 1)"
    using lt Suc.prems(2) nm by (subst checkLoop.simps) (auto simp add: matches_def Let_def)
  also have "\<dots> = checkLoop rt rid em data k"
    using Suc by (intro Suc.hyps(1)) auto
  finally show ?case .
qed

lemma checkLoop_hit:
  "i < length data \<Longrightarrow> matches rt rid em (data ! i) \<Longrightarrow>
   checkLoop rt rid em data i =
     CheckOk (statusOf (data ! i)) (statusOf (data ! i) = js ''Approved'')"
  by (subst checkLoop.simps) (simp add: matches_def Let_def statusOf_def)

lemma checkLoop_end: "length data \<le> i \<Longrightarrow> checkLoop rt rid em data i = Failure notFoundCheck"
  by (subst checkLoop.simps) simp

lemma markLoop_skip:
  "i \<le> k \<Longrightarrow> k \<le> length data \<Longrightarrow> \<forall>j. i \<le> j \<and> j < k \<longrightarrow> \<not> matches rt rid em (data ! j) \<Longrightarrow>
   markLoop rt e rid em data i w = markLoop rt e rid em data k w"
proof (induction "k - i" arbitrary: i)
  case 0
  then show ?case by simp
next
  case (Suc n)
  then have lt: "i < k" and nm: "\<not> matches rt rid em (data ! i)" by auto
  have "markLoop rt e rid em data i w = markLoop rt e rid em data (i + 1) w"
    using lt Suc.prems(2) nm by (subst markLoop.simps) (auto simp add: matches_def Let_def)
  also have "\<dots> = markLoop rt e rid em data k w"
    using Suc by (intro Suc.hyps(1)) auto
  finally show ?case .
qed

lemma markLoop_hit:
  "i < length data \<Longrightarrow> matches rt rid em (data ! i) \<Longrightarrow>
   markLoop rt e rid em data i w =
     (if statusOf (data ! i) = js ''Downloaded'' then (Failure alreadyDownloaded, w)
      else if statusOf (data ! i) \<noteq> js ''Approved'' then (Failure notApproved, w)
      else (DownloadOk True,
            setValue (Suc i) 10 (isoNow e) (setValue (Suc i) 9 (js ''Downloaded'') w)))"
  by (subst markLoop.simps) (simp add: matches_def Let_def statusOf_def)

lemma markLoop_end:
  "length data \<le> i \<Longrightarrow> markLoop rt e rid em data i w = (Failure notFoundDownload, w)"
  by (subst markLoop.simps) simp

lemma cellAt_written:
  "0 < c \<Longrightarrow> cellAt ((padTo c [] r)[c - 1 := v]) j = (if j = c - 1 then v else cellAt r j)"
  by (auto simp: cellAt_def padTo_def nth_append nth_list_update)

lemma sheet_setValue:
  "i < length (sheet w) \<Longrightarrow>
   sheet (setValue (Suc i) c v w) = (sheet w)[i := (padTo c [] (sheet w ! i))[c - 1 := v]]"
  by (simp add: setValue_def padTo_def Let_def)

lemma length_setValue:
  "i < length (sheet w) \<Longrightarrow> length (sheet (setValue (Suc i) c v w)) = length (sheet w)"
  by (simp add: sheet_setValue)

lemma markedRow_written:
  "(padTo 10 [] ((padTo 9 [] r)[8 := js ''Downloaded'']))[9 := now] = markedRow now r"
proof (rule nth_equalityI)
  show len: "length ((padTo 10 [] ((padTo 9 [] r)[8 := js ''Downloaded'']))[9 := now]) =
        length (markedRow now r)"
    by (simp add: padTo_def markedRow_def max_def)
  fix c
  assume "c < length ((padTo 10 [] ((padTo 9 [] r)[8 := js ''Downloaded'']))[9 := now])"
  then have c: "c < max 10 (length r)"
    using len by (simp add: markedRow_def)
  have "cellAt ((padTo 10 [] ((padTo 9 [] r)[8 := js ''Downloaded'']))[9 := now]) c =
        (if c = 9 then now else if c = 8 then js ''Downloaded'' else cellAt r c)"
    by (simp add: cellAt_written [of 10, simplified] cellAt_written [of 9, simplified])
  moreover have "cellAt ((padTo 10 [] ((padTo 9 [] r)[8 := js ''Downloaded'']))[9 := now]) c =
        ((padTo 10 [] ((padTo 9 [] r)[8 := js ''Downloaded'']))[9 := now]) ! c"
    using c len by (simp add: cellAt_def markedRow_def)
  moreover have "markedRow now r ! c =
        (if c = 9 then now else if c = 8 then js ''Downloaded'' else cellAt r c)"
    using c by (simp add: markedRow_def)
  ultimately show "((padTo 10 [] ((padTo 9 [] r)[8 := js ''Downloaded'']))[9 := now]) ! c =
        markedRow now r ! c"
    by simp
qed

lemma cellAt_markedRow:
  "cellAt (markedRow now r) c =
     (if c = 9 then now else if c = 8 then js ''Downloaded'' else cellAt r c)"
  by (auto simp: markedRow_def cellAt_def)

lemma sheet_marked:
  assumes "i < length (sheet w)"
  shows "sheet (setValue (Suc i) 10 t (setValue (Suc i) 9 (js ''Downloaded'') w)) =
         (sheet w)[i := markedRow t (sheet w ! i)]"
proof -
  let ?w1 = "setValue (Suc i) 9 (js ''Downloaded'') w"
  have l1: "i < length (sheet ?w1)" using assms by (simp add: length_setValue)
  show ?thesis
    using assms by (simp add: sheet_setValue [OF l1] sheet_setValue [OF assms] markedRow_written)
qed

lemmas string_defs =
  trim_def isWhiteSpace_def asciiUpper_def asciiLower_def isAscii_def orElse_def charAt_def
  chars_def js_def

lemmas sample_defs =
  sampleRuntime_def sampleHeader_def sampleRow_def sampleLedger_def sampleWorld_def
  sampleEnv_def sampleParams_def

lemmas statement_defs =
  normalizedId_def normalizedEmail_def matches_def locatedAt_def statusOf_def
  downloadedAtOf_def cellAt_def getSheet_def

lemmas message_defs =
  requiredSubmit_def submittedMessage_def requiredLookup_def notFoundCheck_def
  alreadyDownloaded_def notApproved_def notFoundDownload_def

lemma located_check:
  assumes "locatedAt rt p data i"
  shows "checkLoop rt (normalizedId rt p) (normalizedEmail rt p) data 1 =
         CheckOk (statusOf (data ! i)) (statusOf (data ! i) = js ''Approved'')"
proof -
  have "checkLoop rt (normalizedId rt p) (normalizedEmail rt p) data 1 =
        checkLoop rt (normalizedId rt p) (normalizedEmail rt p) data i"
    using assms by (intro checkLoop_skip) (auto simp: locatedAt_def)
  then show ?thesis using assms by (simp add: checkLoop_hit locatedAt_def)
qed

lemma located_mark:
  assumes "locatedAt rt p data i"
  shows "markLoop rt e (normalizedId rt p) (normalizedEmail rt p) data 1 w =
     (if statusOf (data ! i) = js ''Downloaded'' then (Failure alreadyDownloaded, w)
      else if statusOf (data ! i) \<noteq> js ''Approved'' then (Failure notApproved, w)
      else (DownloadOk True,
            setValue (Suc i) 10 (isoNow e) (setValue (Suc i) 9 (js ''Downloaded'') w)))"
proof -
  have "markLoop rt e (normalizedId rt p) (normalizedEmail rt p) data 1 w =
        markLoop rt e (normalizedId rt p) (normalizedEmail rt p) data i w"
    using assms by (intro markLoop_skip) (auto simp: locatedAt_def)
  then show ?thesis using assms by (simp add: markLoop_hit locatedAt_def)
qed

lemma markDownloaded_located:
  assumes "locatedAt rt p (sheet w) i"
  shows "markDownloaded rt e p w =
     (if statusOf (sheet w ! i) = js ''Downloaded'' then (Failure alreadyDownloaded, w)
      else if statusOf (sheet w ! i) \<noteq> js ''Approved'' then (Failure notApproved, w)
      else (DownloadOk True,
            setValue (Suc i) 10 (isoNow e) (setValue (Suc i) 9 (js ''Downloaded'') w)))"
proof -
  have ne: "normalizedId rt p \<noteq> []" "normalizedEmail rt p \<noteq> []"
    using assms by (auto simp: locatedAt_def)
  have "markDownloaded rt e p w =
        markLoop rt e (normalizedId rt p) (normalizedEmail rt p) (sheet w) 1 w"
    using ne by (simp add: markDownloaded_def normalizedId_def normalizedEmail_def getSheet_def)
  then show ?thesis using located_mark [OF assms] by simp
qed

lemma checkStatus_located:
  assumes "locatedAt rt p (sheet w) i"
  shows "checkStatus rt p w =
     (CheckOk (statusOf (sheet w ! i)) (statusOf (sheet w ! i) = js ''Approved''), w)"
proof -
  have ne: "normalizedId rt p \<noteq> []" "normalizedEmail rt p \<noteq> []"
    using assms by (auto simp: locatedAt_def)
  have "checkStatus rt p w =
        (checkLoop rt (normalizedId rt p) (normalizedEmail rt p) (sheet w) 1, w)"
    using ne by (simp add: checkStatus_def normalizedId_def normalizedEmail_def getSheet_def)
  then show ?thesis using located_check [OF assms] by simp
qed

lemma matches_markedRow: "matches rt rid em (markedRow t r) = matches rt rid em r"
  by (simp add: matches_def cellAt_markedRow)

lemma located_after_mark:
  assumes "locatedAt rt p data i"
  shows "locatedAt rt p (data[i := markedRow t (data ! i)]) i"
  using assms by (simp add: locatedAt_def matches_markedRow)

lemma statusOf_markedRow: "statusOf (markedRow t r) = js ''Downloaded''"
  by (simp add: statusOf_def cellAt_markedRow trim_Downloaded)

lemma downloadedAtOf_markedRow: "downloadedAtOf (markedRow t r) = t"
  by (simp add: downloadedAtOf_def cellAt_markedRow)

lemma first_match:
  assumes "\<exists>i\<in>{1..<length data}. matches rt rid em (data ! i)"
  shows "\<exists>i. 1 \<le> i \<and> i < length data \<and> matches rt rid em (data ! i) \<and>
             (\<forall>j\<in>{1..<i}. \<not> matches rt rid em (data ! j))"
proof -
  let ?P = "\<lambda>i. 1 \<le> i \<and> i < length data \<and> matches rt rid em (data ! i)"
  have "\<exists>i. ?P i" using assms by auto
  then obtain i where i: "?P i" and least: "\<forall>j<i. \<not> ?P j"
    using exists_least_iff [of ?P] by blast
  have "\<forall>j\<in>{1..<i}. \<not> matches rt rid em (data ! j)"
    using i least by auto
  then show ?thesis using i by blast
qed

lemma no_match_check:
  assumes "\<forall>i\<in>{1..<length data}. \<not> matches rt rid em (data ! i)"
  shows "checkLoop rt rid em data 1 = Failure notFoundCheck"
proof (cases "1 \<le> length data")
  case True
  have "checkLoop rt rid em data 1 = checkLoop rt rid em data (length data)"
    using True assms by (intro checkLoop_skip) auto
  then show ?thesis by (simp add: checkLoop_end)
next
  case False
  then show ?thesis by (simp add: checkLoop_end)
qed

lemma no_match_mark:
  assumes "\<forall>i\<in>{1..<length data}. \<not> matches rt rid em (data ! i)"
  shows "markLoop rt e rid em data 1 w = (Failure notFoundDownload, w)"
proof (cases "1 \<le> length data")
  case True
  have "markLoop rt e rid em data 1 w = markLoop rt e rid em data (length data) w"
    using True assms by (intro markLoop_skip) auto
  then show ?thesis by (simp add: markLoop_end)
next
  case False
  then show ?thesis by (simp add: markLoop_end)
qed

lemma generateRequestId_mailError [simp]:
  "generateRequestId (e\<lparr>mailError := m\<rparr>) = generateRequestId e"
  by (simp add: generateRequestId_def)

lemma submittedRow_mailError [simp]: "submittedRow (e\<lparr>mailError := m\<rparr>) p = submittedRow e p"
  by (simp add: submittedRow_def)

lemma submitRequest_valid:
  assumes "validSubmission p"
  shows "fst (submitRequest e p w) = SubmitOk (generateRequestId e) submittedMessage"
    and "sheet (snd (submitRequest e p w)) = sheet w @ [submittedRow e p]"
  using assms
  by (auto simp: submitRequest_def validSubmission_def submittedRow_def Let_def appendRow_def
      sendEmail_def loggerLog_def split: option.splits)

lemma submitRequest_invalid:
  assumes "\<not> validSubmission p"
  shows "submitRequest e p w = (Failure requiredSubmit, w)"
  using assms by (auto simp: submitRequest_def validSubmission_def Let_def)

lemma random_index:
  assumes "0 \<le> r" and "r < 1"
  shows "nat \<lfloor>r * real (length chars)\<rfloor> < length chars"
proof -
  have len: "length chars = 32" by (simp add: chars_def js_def)
  have "r * 32 < 32" using assms by simp
  then have "\<lfloor>r * 32\<rfloor> < 32" by (simp add: floor_less_iff)
  moreover have "0 \<le> \<lfloor>r * 32\<rfloor>" using assms by simp
  ultimately have "nat \<lfloor>r * 32\<rfloor> < 32" by linarith
  then show ?thesis by (simp add: len)
qed

lemma generateLoop_shape:
  assumes "\<forall>k\<in>{0..<6}. 0 \<le> rnd k \<and> rnd k < 1" and "i \<le> 6"
  shows "\<exists>xs. generateLoop rnd i ident = ident @ xs \<and> length xs = 6 - i \<and> set xs \<subseteq> set chars"
  using assms(2)
proof (induction "6 - i" arbitrary: i ident)
  case 0
  then show ?case by (subst generateLoop.simps) simp
next
  case (Suc n)
  then have lt: "i < 6" by simp
  let ?k = "nat \<lfloor>rnd i * real (length chars)\<rfloor>"
  have k: "?k < length chars" using assms(1) lt by (intro random_index) auto
  have "\<exists>xs. generateLoop rnd (i + 1) (ident @ charAt chars ?k) =
      (ident @ charAt chars ?k) @ xs \<and> length xs = 6 - (i + 1) \<and> set xs \<subseteq> set chars"
  proof (rule Suc.hyps(1))
    show "n = 6 - (i + 1)" using Suc.hyps(2) by simp
    show "i + 1 \<le> 6" using lt by simp
  qed
  then obtain xs where xs: "generateLoop rnd (i + 1) (ident @ charAt chars ?k) =
      (ident @ charAt chars ?k) @ xs" "length xs = 6 - (i + 1)" "set xs \<subseteq> set chars"
    by blast
  have "generateLoop rnd i ident = ident @ (chars ! ?k # xs)"
    using lt k xs(1) by (subst generateLoop.simps) (simp add: charAt_def)
  moreover have "length (chars ! ?k # xs) = 6 - i" using xs(2) lt by simp
  moreover have "set (chars ! ?k # xs) \<subseteq> set chars" using xs(3) k by simp
  ultimately show ?case by blast
qed

lemma generateRequestId_shape:
  assumes "randomInRange e"
  shows "\<exists>xs. generateRequestId e = js ''WM-'' @ xs \<and> length xs = 6 \<and> set xs \<subseteq> set chars"
  using generateLoop_shape [of "mathRandom e" 0 "js ''WM-''"] assms
  by (simp add: randomInRange_def generateRequestId_def)

lemma generateRequestId_wellFormed:
  assumes "randomInRange e"
  shows "wellFormedId (generateRequestId e)"
proof -
  obtain xs where xs: "generateRequestId e = js ''WM-'' @ xs" "length xs = 6"
      "set xs \<subseteq> set chars"
    using generateRequestId_shape [OF assms] by blast
  have l: "length (js ''WM-'') = 3" by (simp add: js_def)
  show ?thesis
    using xs l by (auto simp: wellFormedId_def list_all_iff)
qed

lemma plain_char:
  "c \<in> set chars \<union> set (js ''WM-'') \<Longrightarrow> asciiUpper c = c \<and> \<not> isWhiteSpace c \<and> isAscii c"
  using chars_plain unfolding list_all_iff by auto

lemma generateRequestId_normal:
  assumes "randomInRange e" and "unicodeCase rt"
  shows "toUpperCase rt (trim (generateRequestId e)) = generateRequestId e"
    and "generateRequestId e \<noteq> []"
proof -
  obtain xs where xs: "generateRequestId e = js ''WM-'' @ xs" "set xs \<subseteq> set chars"
    using generateRequestId_shape [OF assms(1)] by blast
  have all: "\<forall>c\<in>set (generateRequestId e). asciiUpper c = c \<and> \<not> isWhiteSpace c \<and> isAscii c"
  proof
    fix c assume "c \<in> set (generateRequestId e)"
    then have "c \<in> set chars \<union> set (js ''WM-'')" using xs by auto
    then show "asciiUpper c = c \<and> \<not> isWhiteSpace c \<and> isAscii c" by (rule plain_char)
  qed
  then have "trim (generateRequestId e) = generateRequestId e" by (intro trim_noop) simp
  moreover have "list_all isAscii (generateRequestId e)"
    using all by (simp add: list_all_iff)
  then have "toUpperCase rt (generateRequestId e) = map asciiUpper (generateRequestId e)"
    using assms(2) by (simp add: unicodeCase_def)
  moreover have "map asciiUpper (generateRequestId e) = generateRequestId e"
    using all by (simp add: map_idI)
  ultimately show "toUpperCase rt (trim (generateRequestId e)) = generateRequestId e" by simp
  show "generateRequestId e \<noteq> []" using xs by (simp add: js_def)
qed

lemma submitted_row_located:
  assumes valid: "validSubmission p" and rnd: "randomInRange e" and uc: "unicodeCase rt"
    and header: "sheet w \<noteq> []"
    and fresh: "\<forall>i\<in>{1..<length (sheet w)}.
                  \<not> matches rt (generateRequestId e) (normalizedEmail rt p) (sheet w ! i)"
  shows "locatedAt rt (p\<lparr>requestId := Some (generateRequestId e)\<rparr>)
           (sheet (snd (submitRequest e p w))) (length (sheet w))"
proof -
  let ?rid = "generateRequestId e"
  let ?p = "p\<lparr>requestId := Some ?rid\<rparr>"
  have sh: "sheet (snd (submitRequest e p w)) = sheet w @ [submittedRow e p]"
    by (rule submitRequest_valid(2) [OF valid])
  have nid: "normalizedId rt ?p = ?rid"
    using generateRequestId_normal [OF rnd uc] by (simp add: normalizedId_def orElse_def)
  have nem: "normalizedEmail rt ?p = normalizedEmail rt p"
    by (simp add: normalizedEmail_def)
  have ne: "normalizedEmail rt p \<noteq> []"
    using valid uc by (simp add: normalizedEmail_def validSubmission_def unicodeCase_def)
  have m: "matches rt ?rid (normalizedEmail rt p) (submittedRow e p)"
    using generateRequestId_normal(1) [OF rnd uc]
    by (simp add: matches_def cellAt_def submittedRow_def normalizedEmail_def trim_idem)
  have old: "\<forall>j\<in>{1..<length (sheet w)}. (sheet w @ [submittedRow e p]) ! j = sheet w ! j"
    by (simp add: nth_append)
  show ?thesis
    unfolding locatedAt_def sh nid nem
    using header ne m fresh generateRequestId_normal(2) [OF rnd uc] old
    by (simp add: Suc_le_eq)
qed

lemma markLoop_effect:
  "snd (markLoop rt e rid em data i w) = w \<or>
   (\<exists>k. i \<le> k \<and> k < length data \<and>
        snd (markLoop rt e rid em data i w) =
          setValue (Suc k) 10 (isoNow e) (setValue (Suc k) 9 (js ''Downloaded'') w))"
proof (induction "length data - i" arbitrary: i)
  case 0
  then show ?case by (simp add: markLoop_end)
next
  case (Suc n)
  then have lt: "i < length data" by simp
  show ?case
  proof (cases "matches rt rid em (data ! i)")
    case True
    show ?thesis using lt by (auto simp: markLoop_hit [OF lt True])
  next
    case False
    have step: "markLoop rt e rid em data i w = markLoop rt e rid em data (Suc i) w"
    proof (rule markLoop_skip)
      show "i \<le> Suc i" by simp
      show "Suc i \<le> length data" using lt by simp
      show "\<forall>j. i \<le> j \<and> j < Suc i \<longrightarrow> \<not> matches rt rid em (data ! j)"
        using False by (metis le_antisym less_Suc_eq_le)
    qed
    have "n = length data - Suc i" using Suc.hyps(2) by simp
    from Suc.hyps(1) [OF this] show ?thesis
      unfolding step by (metis Suc_leD)
  qed
qed

lemma markDownloaded_effect:
  "snd (markDownloaded rt e p w) = w \<or>
   (\<exists>k. 1 \<le> k \<and> k < length (sheet w) \<and>
        sheet (snd (markDownloaded rt e p w)) =
          (sheet w)[k := markedRow (isoNow e) (sheet w ! k)])"
proof -
  have "snd (markDownloaded rt e p w) = w \<or>
   (\<exists>k. 1 \<le> k \<and> k < length (sheet w) \<and>
        snd (markDownloaded rt e p w) =
          setValue (Suc k) 10 (isoNow e) (setValue (Suc k) 9 (js ''Downloaded'') w))"
    using markLoop_effect [of rt e _ _ "sheet w" 1 w]
    by (simp add: markDownloaded_def Let_def getSheet_def)
  then show ?thesis by (metis sheet_marked)
qed

lemma submitRequest_effect:
  "snd (submitRequest e p w) = w \<or>
   sheet (snd (submitRequest e p w)) = sheet w @ [submittedRow e p]"
proof (cases "validSubmission p")
  case True
  then show ?thesis by (simp add: submitRequest_valid(2))
next
  case False
  then show ?thesis by (simp add: submitRequest_invalid)
qed

lemma handleRequest_effect:
  "snd (handleRequest rt e p w) = w \<or>
   (\<exists>k. 1 \<le> k \<and> k < length (sheet w) \<and>
        sheet (snd (handleRequest rt e p w)) =
          (sheet w)[k := markedRow (isoNow e) (sheet w ! k)]) \<or>
   sheet (snd (handleRequest rt e p w)) = sheet w @ [submittedRow e p]"
  using markDownloaded_effect [of rt e p w] submitRequest_effect [of e p w]
  by (auto simp: handleRequest_def checkStatus_def Let_def)

lemma rowConsistent_markedRow: "now \<noteq> [] \<Longrightarrow> rowConsistent (markedRow now r)"
  by (simp add: rowConsistent_def statusOf_markedRow downloadedAtOf_markedRow)

lemma submittedRow_cells:
  "cellAt (submittedRow e p) 8 = js ''Pending''" "downloadedAtOf (submittedRow e p) = []"
  "statusOf (submittedRow e p) = js ''Pending''" "rowConsistent (submittedRow e p)"
  by (simp_all add: submittedRow_def cellAt_def downloadedAtOf_def statusOf_def trim_Pending
      rowConsistent_def)

lemma step_same: "ledgerStep now s s"
  by (auto simp: ledgerStep_def)

lemma step_mark:
  assumes "k < length s" and "now \<noteq> []"
  shows "ledgerStep now s (s[k := markedRow now (s ! k)])"
  using assms
  by (auto simp: ledgerStep_def nth_list_update downloadedAtOf_markedRow rowConsistent_markedRow)

lemma step_append: "ledgerStep now s (s @ [submittedRow e p])"
  by (auto simp: ledgerStep_def nth_append submittedRow_cells less_Suc_eq)

lemma step_keeps_invariant:
  assumes "ledgerStep now s s'" and "ledgerInvariant s"
  shows "ledgerInvariant s'"
  unfolding ledgerInvariant_def
proof
  fix i assume i: "i \<in> {1..<length s'}"
  show "rowConsistent (s' ! i)"
  proof (cases "i < length s")
    case True
    then have "rowConsistent (s ! i)" using assms(2) i by (simp add: ledgerInvariant_def)
    then show ?thesis using assms(1) True by (simp add: ledgerStep_def)
  next
    case False
    then show ?thesis using assms(1) i by (simp add: ledgerStep_def)
  qed
qed

lemma handleRequest_step:
  assumes "isoNow e \<noteq> []"
  shows "ledgerStep (isoNow e) (sheet w) (sheet (snd (handleRequest rt e p w)))"
proof -
  consider (same) "snd (handleRequest rt e p w) = w"
    | (mark) k where "k < length (sheet w)"
        "sheet (snd (handleRequest rt e p w)) =
           (sheet w)[k := markedRow (isoNow e) (sheet w ! k)]"
    | (app) "sheet (snd (handleRequest rt e p w)) = sheet w @ [submittedRow e p]"
    using handleRequest_effect [of rt e p w] by blast
  then show ?thesis
  proof cases
    case same
    then show ?thesis by (simp add: step_same)
  next
    case mark
    then show ?thesis using assms by (simp add: step_mark)
  next
    case app
    then show ?thesis by (simp add: step_append)
  qed
qed

lemma race_two_successes:
  assumes "locatedAt rt p (sheet w) i" and "statusOf (sheet w ! i) = js ''Approved''"
  shows "fst (bothReadThenWrite rt e1 e2 p w) = DownloadOk True"
    and "fst (snd (bothReadThenWrite rt e1 e2 p w)) = DownloadOk True"
proof -
  have ne: "normalizedId rt p \<noteq> []" "normalizedEmail rt p \<noteq> []"
    using assms(1) by (auto simp: locatedAt_def)
  have m: "\<And>e v. markLoop rt e (normalizedId rt p) (normalizedEmail rt p) (sheet w) 1 v =
      (DownloadOk True,
       setValue (Suc i) 10 (isoNow e) (setValue (Suc i) 9 (js ''Downloaded'') v))"
    subgoal for e v using assms(2) located_mark [OF assms(1), of e v] by simp
    done
  have m': "\<And>e v. markLoop rt e (toUpperCase rt (trim (orElse (requestId p) [])))
        (toLowerCase rt (trim (orElse (email p) []))) (sheet w) (Suc 0) v =
      (DownloadOk True,
       setValue (Suc i) 10 (isoNow e) (setValue (Suc i) 9 (js ''Downloaded'') v))"
    using m by (simp add: normalizedId_def normalizedEmail_def)
  show "fst (bothReadThenWrite rt e1 e2 p w) = DownloadOk True"
    using ne
    by (simp add: bothReadThenWrite_def Let_def getSheet_def normalizedId_def
        normalizedEmail_def m')
  show "fst (snd (bothReadThenWrite rt e1 e2 p w)) = DownloadOk True"
    using ne
    by (simp add: bothReadThenWrite_def Let_def getSheet_def normalizedId_def
        normalizedEmail_def m')
qed

section \<open>The claims\<close>

text \<open>
  C1, as amended. When the credentials address a record whose status reads
  \<open>Approved\<close> (the record is the first data row that matches them, and they are not
  empty), \<open>markDownloaded\<close> succeeds with \<open>canDownload = true\<close>, writes \<open>Downloaded\<close>
  into the status cell of that record and the time of the call into its download-time
  cell, and leaves every other cell of the ledger as it was; a second call with the same
  credentials, right after, fails with the already-downloaded message, which differs from
  the not-found and the not-approved messages.
\<close>

theorem download_approved_once:
  assumes "locatedAt rt p (sheet w) i" and "statusOf (sheet w ! i) = js ''Approved''"
  shows "fst (markDownloaded rt e p w) = DownloadOk True \<and>
         sheet (snd (markDownloaded rt e p w)) =
           (sheet w)[i := markedRow (isoNow e) (sheet w ! i)] \<and>
         cellAt (sheet (snd (markDownloaded rt e p w)) ! i) 8 = js ''Downloaded'' \<and>
         statusOf (sheet (snd (markDownloaded rt e p w)) ! i) = js ''Downloaded'' \<and>
         downloadedAtOf (sheet (snd (markDownloaded rt e p w)) ! i) = isoNow e \<and>
         markDownloaded rt e' p (snd (markDownloaded rt e p w)) =
           (Failure alreadyDownloaded, snd (markDownloaded rt e p w)) \<and>
         alreadyDownloaded \<noteq> notFoundDownload \<and> alreadyDownloaded \<noteq> notApproved"
proof -
  let ?w' = "setValue (Suc i) 10 (isoNow e) (setValue (Suc i) 9 (js ''Downloaded'') w)"
  have i: "i < length (sheet w)" using assms(1) by (simp add: locatedAt_def)
  have sh: "sheet ?w' = (sheet w)[i := markedRow (isoNow e) (sheet w ! i)]"
    by (rule sheet_marked [OF i])
  have first: "markDownloaded rt e p w = (DownloadOk True, ?w')"
    using assms(2) markDownloaded_located [OF assms(1), of e] by simp
  have row: "sheet ?w' ! i = markedRow (isoNow e) (sheet w ! i)"
    using i by (simp add: sh)
  have loc: "locatedAt rt p (sheet ?w') i"
    unfolding sh by (rule located_after_mark [OF assms(1)])
  have second: "markDownloaded rt e' p ?w' = (Failure alreadyDownloaded, ?w')"
    using markDownloaded_located [OF loc, of e'] by (simp add: row statusOf_markedRow)
  have msgs: "alreadyDownloaded \<noteq> notFoundDownload \<and> alreadyDownloaded \<noteq> notApproved"
    by (simp add: alreadyDownloaded_def notFoundDownload_def notApproved_def)
  have cells: "cellAt (sheet ?w' ! i) 8 = js ''Downloaded''"
    "statusOf (sheet ?w' ! i) = js ''Downloaded''"
    "downloadedAtOf (sheet ?w' ! i) = isoNow e"
    by (simp_all add: row statusOf_markedRow downloadedAtOf_markedRow cellAt_markedRow)
  show ?thesis
    unfolding first fst_conv snd_conv
    using second msgs sh cells by blast
qed

theorem download_approved_once_witness:
  "locatedAt sampleRuntime (sampleParams (js ''wm-aaaaaa'') (js '' Ana@Example.org ''))
     (sheet (sampleWorld ''Approved'')) 1 \<and>
   statusOf (sheet (sampleWorld ''Approved'') ! 1) = js ''Approved'' \<and>
   fst (markDownloaded sampleRuntime (sampleEnv 0)
          (sampleParams (js ''wm-aaaaaa'') (js '' Ana@Example.org ''))
          (sampleWorld ''Approved'')) = DownloadOk True \<and>
   statusOf (sheet (snd (markDownloaded sampleRuntime (sampleEnv 0)
          (sampleParams (js ''wm-aaaaaa'') (js '' Ana@Example.org ''))
          (sampleWorld ''Approved''))) ! 1) = js ''Downloaded'' \<and>
   downloadedAtOf (sheet (snd (markDownloaded sampleRuntime (sampleEnv 0)
          (sampleParams (js ''wm-aaaaaa'') (js '' Ana@Example.org ''))
          (sampleWorld ''Approved''))) ! 1) = js ''2026-01-02T00:00:00.000Z'' \<and>
   fst (markDownloaded sampleRuntime (sampleEnv 0)
          (sampleParams (js ''wm-aaaaaa'') (js '' Ana@Example.org ''))
          (snd (markDownloaded sampleRuntime (sampleEnv 0)
                  (sampleParams (js ''wm-aaaaaa'') (js '' Ana@Example.org ''))
                  (sampleWorld ''Approved'')))) = Failure alreadyDownloaded"
proof -
  have h1: "locatedAt sampleRuntime (sampleParams (js ''wm-aaaaaa'') (js '' Ana@Example.org ''))
              (sheet (sampleWorld ''Approved'')) 1"
    by (simp add: string_defs sample_defs statement_defs)
  have h2: "statusOf (sheet (sampleWorld ''Approved'') ! 1) = js ''Approved''"
    by (simp add: string_defs sample_defs statement_defs)
  have now: "isoNow (sampleEnv 0) = js ''2026-01-02T00:00:00.000Z''"
    by (simp add: sampleEnv_def)
  let ?p = "sampleParams (js ''wm-aaaaaa'') (js '' Ana@Example.org '')"
  let ?w' = "snd (markDownloaded sampleRuntime (sampleEnv 0) ?p (sampleWorld ''Approved''))"
  have r: "fst (markDownloaded sampleRuntime (sampleEnv 0) ?p (sampleWorld ''Approved'')) =
             DownloadOk True \<and>
           statusOf (sheet ?w' ! 1) = js ''Downloaded'' \<and>
           downloadedAtOf (sheet ?w' ! 1) = isoNow (sampleEnv 0) \<and>
           markDownloaded sampleRuntime (sampleEnv 0) ?p ?w' = (Failure alreadyDownloaded, ?w')"
    using download_approved_once [OF h1 h2, of "sampleEnv 0" "sampleEnv 0"] by blast
  then have r': "fst (markDownloaded sampleRuntime (sampleEnv 0) ?p ?w') =
                   Failure alreadyDownloaded"
    by simp
  show ?thesis
    using h1 h2 r r' unfolding now by blast
qed

text \<open>
  C1 as written fails on a record that is not the one its credentials address. In the
  ledger of two records with the same request id and email, \<open>Rejected\<close> and then
  \<open>Approved\<close>, a download with these credentials is refused as not approved. And for
  an \<open>Approved\<close> record whose email cell is empty the matching credentials are refused
  as incomplete.
\<close>

theorem download_approved_once_counterexample:
  "statusOf (sheet (sampleLedger [sampleRow ''ana@example.org'' ''Rejected'',
                                   sampleRow ''ana@example.org'' ''Approved'']) ! 2) =
     js ''Approved'' \<and>
   matches sampleRuntime
     (normalizedId sampleRuntime (sampleParams (js ''WM-AAAAAA'') (js ''ana@example.org'')))
     (normalizedEmail sampleRuntime (sampleParams (js ''WM-AAAAAA'') (js ''ana@example.org'')))
     (sheet (sampleLedger [sampleRow ''ana@example.org'' ''Rejected'',
                           sampleRow ''ana@example.org'' ''Approved'']) ! 2) \<and>
   markDownloaded sampleRuntime (sampleEnv 0)
     (sampleParams (js ''WM-AAAAAA'') (js ''ana@example.org''))
     (sampleLedger [sampleRow ''ana@example.org'' ''Rejected'',
                    sampleRow ''ana@example.org'' ''Approved'']) =
     (Failure notApproved,
      sampleLedger [sampleRow ''ana@example.org'' ''Rejected'',
                    sampleRow ''ana@example.org'' ''Approved'']) \<and>
   statusOf (sheet (sampleLedger [sampleRow [] ''Approved'']) ! 1) = js ''Approved'' \<and>
   matches sampleRuntime
     (normalizedId sampleRuntime (sampleParams (js ''WM-AAAAAA'') []))
     (normalizedEmail sampleRuntime (sampleParams (js ''WM-AAAAAA'') []))
     (sheet (sampleLedger [sampleRow [] ''Approved'']) ! 1) \<and>
   markDownloaded sampleRuntime (sampleEnv 0) (sampleParams (js ''WM-AAAAAA'') [])
     (sampleLedger [sampleRow [] ''Approved'']) =
     (Failure requiredLookup, sampleLedger [sampleRow [] ''Approved''])"
proof -
  let ?w = "sampleLedger [sampleRow ''ana@example.org'' ''Rejected'',
                          sampleRow ''ana@example.org'' ''Approved'']"
  let ?p = "sampleParams (js ''WM-AAAAAA'') (js ''ana@example.org'')"
  have loc: "locatedAt sampleRuntime ?p (sheet ?w) 1"
    by (simp add: string_defs sample_defs statement_defs)
  have st: "statusOf (sheet ?w ! Suc 0) = js ''Rejected''"
    by (simp add: string_defs sample_defs statement_defs)
  have a: "markDownloaded sampleRuntime (sampleEnv 0) ?p ?w = (Failure notApproved, ?w)"
    using markDownloaded_located [OF loc, of "sampleEnv 0"] by (simp add: st)
  have b: "statusOf (sheet ?w ! 2) = js ''Approved'' \<and>
           matches sampleRuntime (normalizedId sampleRuntime ?p)
             (normalizedEmail sampleRuntime ?p) (sheet ?w ! 2)"
    by (simp add: string_defs sample_defs statement_defs)
  have c: "statusOf (sheet (sampleLedger [sampleRow [] ''Approved'']) ! 1) = js ''Approved'' \<and>
     matches sampleRuntime
       (normalizedId sampleRuntime (sampleParams (js ''WM-AAAAAA'') []))
       (normalizedEmail sampleRuntime (sampleParams (js ''WM-AAAAAA'') []))
       (sheet (sampleLedger [sampleRow [] ''Approved'']) ! 1)"
    by (simp add: string_defs sample_defs statement_defs)
  have d: "markDownloaded sampleRuntime (sampleEnv 0) (sampleParams (js ''WM-AAAAAA'') [])
     (sampleLedger [sampleRow [] ''Approved'']) =
     (Failure requiredLookup, sampleLedger [sampleRow [] ''Approved''])"
    by (simp add: markDownloaded_def string_defs sampleParams_def sampleRuntime_def)
  show ?thesis using a b c d by blast
qed

text \<open>
  C2, as amended. For credentials whose trimmed request id and trimmed email are both
  non-empty, \<open>checkStatus\<close> and \<open>markDownloaded\<close> fail with their not-found message
  exactly when no data row matches both the request id (trimmed, in upper case) and the
  email (trimmed, in lower case): a row matching one field only is not found. The ledger
  is then left as it was.
\<close>

theorem lookup_needs_both_fields:
  assumes "unicodeCase rt"
    and "trim (orElse (requestId p) []) \<noteq> []" and "trim (orElse (email p) []) \<noteq> []"
  shows "(fst (checkStatus rt p w) = Failure notFoundCheck) =
           (\<forall>i\<in>{1..<length (sheet w)}.
              \<not> matches rt (normalizedId rt p) (normalizedEmail rt p) (sheet w ! i)) \<and>
         (fst (markDownloaded rt e p w) = Failure notFoundDownload) =
           (\<forall>i\<in>{1..<length (sheet w)}.
              \<not> matches rt (normalizedId rt p) (normalizedEmail rt p) (sheet w ! i)) \<and>
         ((\<forall>i\<in>{1..<length (sheet w)}.
              \<not> matches rt (normalizedId rt p) (normalizedEmail rt p) (sheet w ! i)) \<longrightarrow>
          checkStatus rt p w = (Failure notFoundCheck, w) \<and>
          markDownloaded rt e p w = (Failure notFoundDownload, w))"
proof -
  have ne: "normalizedId rt p \<noteq> []" "normalizedEmail rt p \<noteq> []"
    using assms by (simp_all add: normalizedId_def normalizedEmail_def unicodeCase_def)
  show ?thesis
  proof (cases "\<exists>i\<in>{1..<length (sheet w)}.
                  matches rt (normalizedId rt p) (normalizedEmail rt p) (sheet w ! i)")
    case True
    then obtain i where "locatedAt rt p (sheet w) i"
      using first_match [OF True] ne by (auto simp: locatedAt_def)
    then have "fst (checkStatus rt p w) \<noteq> Failure notFoundCheck"
      and "fst (markDownloaded rt e p w) \<noteq> Failure notFoundDownload"
      by (simp_all add: checkStatus_located markDownloaded_located
          alreadyDownloaded_def notApproved_def notFoundDownload_def)
    then show ?thesis using True by blast
  next
    case False
    then have none: "\<forall>i\<in>{1..<length (sheet w)}.
        \<not> matches rt (normalizedId rt p) (normalizedEmail rt p) (sheet w ! i)"
      by blast
    have "checkStatus rt p w = (Failure notFoundCheck, w)"
      and "markDownloaded rt e p w = (Failure notFoundDownload, w)"
      using ne no_match_check [OF none] no_match_mark [OF none, of e w]
      by (simp_all add: checkStatus_def markDownloaded_def normalizedId_def normalizedEmail_def
          getSheet_def)
    then show ?thesis using none by simp
  qed
qed

theorem lookup_needs_both_fields_witness:
  "unicodeCase sampleRuntime \<and>
   trim (orElse (requestId (sampleParams (js ''WM-AAAAAA'') (js ''bob@example.org''))) []) \<noteq> [] \<and>
   trim (orElse (email (sampleParams (js ''WM-AAAAAA'') (js ''bob@example.org''))) []) \<noteq> [] \<and>
   length (sheet (sampleWorld ''Approved'')) = 2 \<and>
   \<not> matches sampleRuntime
        (normalizedId sampleRuntime (sampleParams (js ''WM-AAAAAA'') (js ''bob@example.org'')))
        (normalizedEmail sampleRuntime (sampleParams (js ''WM-AAAAAA'') (js ''bob@example.org'')))
        (sheet (sampleWorld ''Approved'') ! 1) \<and>
   fst (checkStatus sampleRuntime (sampleParams (js ''WM-AAAAAA'') (js ''bob@example.org''))
          (sampleWorld ''Approved'')) = Failure notFoundCheck \<and>
   fst (markDownloaded sampleRuntime (sampleEnv 0)
          (sampleParams (js ''WM-AAAAAA'') (js ''bob@example.org''))
          (sampleWorld ''Approved'')) = Failure notFoundDownload"
proof -
  let ?p = "sampleParams (js ''WM-AAAAAA'') (js ''bob@example.org'')"
  have h1: "trim (orElse (requestId ?p) []) \<noteq> []"
    by (simp add: string_defs sample_defs)
  have h2: "trim (orElse (email ?p) []) \<noteq> []"
    by (simp add: string_defs sample_defs)
  have h3: "\<forall>i\<in>{1..<length (sheet (sampleWorld ''Approved''))}.
      \<not> matches sampleRuntime (normalizedId sampleRuntime ?p) (normalizedEmail sampleRuntime ?p)
           (sheet (sampleWorld ''Approved'') ! i)"
    by (simp add: string_defs sample_defs statement_defs)
  have h4: "length (sheet (sampleWorld ''Approved'')) = 2"
    by (simp add: sample_defs)
  have h5: "\<not> matches sampleRuntime (normalizedId sampleRuntime ?p)
        (normalizedEmail sampleRuntime ?p) (sheet (sampleWorld ''Approved'') ! 1)"
    by (simp add: string_defs sample_defs statement_defs)
  have r: "fst (checkStatus sampleRuntime ?p (sampleWorld ''Approved'')) =
             Failure notFoundCheck \<and>
           fst (markDownloaded sampleRuntime (sampleEnv 0) ?p (sampleWorld ''Approved'')) =
             Failure notFoundDownload"
    using h3 lookup_needs_both_fields [OF unicodeCase_sample h1 h2,
        of "sampleWorld ''Approved''" "sampleEnv 0"]
    by simp
  show ?thesis
    using unicodeCase_sample h1 h2 h4 h5 r by blast
qed

text \<open>
  C2 as written fails for an empty email: with the request id of a stored record
  and an email that does not match it because it is empty, both operations answer with
  the required-fields message, not with not-found.
\<close>

theorem lookup_mismatch_counterexample:
  "toUpperCase sampleRuntime (trim (cellAt (sheet (sampleWorld ''Approved'') ! 1) 7)) =
     toUpperCase sampleRuntime (trim (js ''WM-AAAAAA'')) \<and>
   toLowerCase sampleRuntime (trim (cellAt (sheet (sampleWorld ''Approved'') ! 1) 1)) \<noteq>
     toLowerCase sampleRuntime (trim []) \<and>
   fst (checkStatus sampleRuntime (sampleParams (js ''WM-AAAAAA'') []) (sampleWorld ''Approved'')) =
     Failure requiredLookup \<and>
   fst (markDownloaded sampleRuntime (sampleEnv 0) (sampleParams (js ''WM-AAAAAA'') [])
          (sampleWorld ''Approved'')) = Failure requiredLookup \<and>
   Failure requiredLookup \<noteq> Failure notFoundCheck \<and>
   Failure requiredLookup \<noteq> Failure notFoundDownload"
proof -
  have a: "toUpperCase sampleRuntime (trim (cellAt (sheet (sampleWorld ''Approved'') ! 1) 7)) =
       toUpperCase sampleRuntime (trim (js ''WM-AAAAAA'')) \<and>
     toLowerCase sampleRuntime (trim (cellAt (sheet (sampleWorld ''Approved'') ! 1) 1)) \<noteq>
       toLowerCase sampleRuntime (trim [])"
    by (simp add: string_defs sample_defs statement_defs)
  have b: "fst (checkStatus sampleRuntime (sampleParams (js ''WM-AAAAAA'') [])
                  (sampleWorld ''Approved'')) = Failure requiredLookup \<and>
     fst (markDownloaded sampleRuntime (sampleEnv 0) (sampleParams (js ''WM-AAAAAA'') [])
            (sampleWorld ''Approved'')) = Failure requiredLookup"
    by (simp add: checkStatus_def markDownloaded_def string_defs sampleParams_def
        sampleRuntime_def)
  have c: "Failure requiredLookup \<noteq> Failure notFoundCheck \<and>
           Failure requiredLookup \<noteq> Failure notFoundDownload"
    by (simp add: requiredLookup_def notFoundCheck_def notFoundDownload_def)
  show ?thesis using a b c by blast
qed

text \<open>
  C3. When the trimmed email, icon or first line is empty, \<open>submitRequest\<close> fails
  with the validation message, which names email, icon and line 1, and the world (the
  ledger with it) is left as it was: no row is appended.
\<close>

theorem submit_rejects_missing_fields:
  assumes "trim (orElse (email p) []) = [] \<or> trim (orElse (icon p) []) = [] \<or>
           trim (orElse (line1 p) []) = []"
  shows "submitRequest e p w = (Failure requiredSubmit, w) \<and>
         requiredSubmit = js ''Email, icon, and at least line 1 are required.''"
  using assms by (auto simp: submitRequest_def Let_def requiredSubmit_def)

theorem submit_rejects_missing_fields_witness:
  "(trim (orElse (email (sampleParams [] [0x00A0, 0x0020])) []) = [] \<or>
    trim (orElse (icon (sampleParams [] [0x00A0, 0x0020])) []) = [] \<or>
    trim (orElse (line1 (sampleParams [] [0x00A0, 0x0020])) []) = []) \<and>
   submitRequest (sampleEnv 0) (sampleParams [] [0x00A0, 0x0020]) (sampleWorld ''Pending'') =
     (Failure (js ''Email, icon, and at least line 1 are required.''), sampleWorld ''Pending'')"
proof -
  have h: "trim (orElse (email (sampleParams [] [0x00A0, 0x0020])) []) = [] \<or>
    trim (orElse (icon (sampleParams [] [0x00A0, 0x0020])) []) = [] \<or>
    trim (orElse (line1 (sampleParams [] [0x00A0, 0x0020])) []) = []"
    by (simp add: trim_def isWhiteSpace_def orElse_def sampleParams_def)
  have r: "submitRequest (sampleEnv 0) (sampleParams [] [0x00A0, 0x0020])
             (sampleWorld ''Pending'') =
           (Failure (js ''Email, icon, and at least line 1 are required.''),
            sampleWorld ''Pending'')"
    using submit_rejects_missing_fields [OF h, of "sampleEnv 0" "sampleWorld ''Pending''"]
    by simp
  show ?thesis using h r by blast
qed

text \<open>
  C4, as amended. For a submission that passes validation, with \<open>Math.random()\<close>
  in its range, \<open>submitRequest\<close> returns a request id made of \<open>WM-\<close> and six
  characters of the alphabet, which has 32 distinct symbols. When the sheet has its
  header row and no data row already carries that request id together with the same
  email, \<open>checkStatus\<close> with the returned id and the same email then answers
  \<open>Pending\<close>, \<open>canDownload = false\<close>.
\<close>

theorem submit_then_check:
  assumes "validSubmission p" and "randomInRange e" and "unicodeCase rt"
  shows "fst (submitRequest e p w) = SubmitOk (generateRequestId e) submittedMessage \<and>
         wellFormedId (generateRequestId e) \<and>
         length chars = 32 \<and> distinct chars \<and>
         (sheet w \<noteq> [] \<and>
          (\<forall>i\<in>{1..<length (sheet w)}.
             \<not> matches rt (generateRequestId e) (normalizedEmail rt p) (sheet w ! i)) \<longrightarrow>
          checkStatus rt (p\<lparr>requestId := Some (generateRequestId e)\<rparr>)
              (snd (submitRequest e p w)) =
            (CheckOk (js ''Pending'') False, snd (submitRequest e p w)))"
proof (intro conjI impI)
  show "fst (submitRequest e p w) = SubmitOk (generateRequestId e) submittedMessage"
    by (rule submitRequest_valid(1) [OF assms(1)])
  show "wellFormedId (generateRequestId e)"
    by (rule generateRequestId_wellFormed [OF assms(2)])
  show "length chars = 32" and "distinct chars"
    by (simp_all add: chars_def js_def)
next
  assume h: "sheet w \<noteq> [] \<and>
          (\<forall>i\<in>{1..<length (sheet w)}.
             \<not> matches rt (generateRequestId e) (normalizedEmail rt p) (sheet w ! i))"
  have loc: "locatedAt rt (p\<lparr>requestId := Some (generateRequestId e)\<rparr>)
           (sheet (snd (submitRequest e p w))) (length (sheet w))"
    using h by (intro submitted_row_located assms) simp_all
  have st: "statusOf (sheet (snd (submitRequest e p w)) ! length (sheet w)) = js ''Pending''"
    by (simp add: submitRequest_valid(2) [OF assms(1)] submittedRow_cells)
  show "checkStatus rt (p\<lparr>requestId := Some (generateRequestId e)\<rparr>)
            (snd (submitRequest e p w)) =
          (CheckOk (js ''Pending'') False, snd (submitRequest e p w))"
    by (simp add: checkStatus_located [OF loc] st)
qed

theorem submit_then_check_witness:
  "validSubmission (sampleParams [] (js ''Ana@Example.org'')) \<and>
   randomInRange (sampleEnv (1 / 2)) \<and> unicodeCase sampleRuntime \<and>
   fst (submitRequest (sampleEnv (1 / 2)) (sampleParams [] (js ''Ana@Example.org''))
          (sampleWorld ''Approved'')) = SubmitOk (js ''WM-SSSSSS'') submittedMessage \<and>
   wellFormedId (js ''WM-SSSSSS'') \<and>
   sheet (sampleWorld ''Approved'') \<noteq> [] \<and>
   length (sheet (sampleWorld ''Approved'')) = 2 \<and>
   \<not> matches sampleRuntime (js ''WM-SSSSSS'')
        (normalizedEmail sampleRuntime (sampleParams [] (js ''Ana@Example.org'')))
        (sheet (sampleWorld ''Approved'') ! 1) \<and>
   fst (checkStatus sampleRuntime (sampleParams (js ''WM-SSSSSS'') (js ''Ana@Example.org''))
          (snd (submitRequest (sampleEnv (1 / 2)) (sampleParams [] (js ''Ana@Example.org''))
                  (sampleWorld ''Approved'')))) = CheckOk (js ''Pending'') False"
proof -
  let ?p = "sampleParams [] (js ''Ana@Example.org'')"
  have h1: "validSubmission ?p"
    by (simp add: validSubmission_def string_defs sample_defs)
  have h2: "randomInRange (sampleEnv (1 / 2))"
    by (simp add: randomInRange_def sample_defs)
  have h3: "sheet (sampleWorld ''Approved'') \<noteq> []"
    by (simp add: sample_defs)
  have g: "generateRequestId (sampleEnv (1 / 2)) = js ''WM-SSSSSS''"
    by (simp add: generateRequestId_def generateLoop.simps sample_defs string_defs)
  have h4: "\<forall>i\<in>{1..<length (sheet (sampleWorld ''Approved''))}.
      \<not> matches sampleRuntime (js ''WM-SSSSSS'') (normalizedEmail sampleRuntime ?p)
           (sheet (sampleWorld ''Approved'') ! i)"
    by (simp add: string_defs sample_defs statement_defs)
  have q: "?p\<lparr>requestId := Some (js ''WM-SSSSSS'')\<rparr> =
           sampleParams (js ''WM-SSSSSS'') (js ''Ana@Example.org'')"
    by (simp add: sampleParams_def)
  have h5: "length (sheet (sampleWorld ''Approved'')) = 2"
    by (simp add: sample_defs)
  have h6: "\<not> matches sampleRuntime (js ''WM-SSSSSS'') (normalizedEmail sampleRuntime ?p)
        (sheet (sampleWorld ''Approved'') ! 1)"
    by (simp add: string_defs sample_defs statement_defs)
  have r: "fst (submitRequest (sampleEnv (1 / 2)) ?p (sampleWorld ''Approved'')) =
             SubmitOk (js ''WM-SSSSSS'') submittedMessage \<and>
        wellFormedId (js ''WM-SSSSSS'') \<and>
        fst (checkStatus sampleRuntime (sampleParams (js ''WM-SSSSSS'') (js ''Ana@Example.org''))
          (snd (submitRequest (sampleEnv (1 / 2)) ?p (sampleWorld ''Approved'')))) =
          CheckOk (js ''Pending'') False"
    using h3 h4 submit_then_check [OF h1 h2 unicodeCase_sample, of "sampleWorld ''Approved''"]
    unfolding g q by simp
  show ?thesis
    using h1 h2 unicodeCase_sample h3 h5 h6 r by blast
qed

text \<open>
  C4 as written fails when the generated id repeats one in the ledger: with an
  \<open>Approved\<close> row of id \<open>WM-AAAAAA\<close> and the same email already stored, and six
  random draws of 0, the new request gets the id \<open>WM-AAAAAA\<close> too, and the check
  finds the older row: \<open>Approved\<close>, \<open>canDownload = true\<close>. It fails as well on a
  sheet without its header row: the first record lands in the row that the lookup skips,
  and the check does not find it.
\<close>

theorem submit_then_check_counterexample:
  "validSubmission (sampleParams [] (js ''ana@example.org'')) \<and>
   fst (submitRequest (sampleEnv 0) (sampleParams [] (js ''ana@example.org''))
          (sampleWorld ''Approved'')) = SubmitOk (js ''WM-AAAAAA'') submittedMessage \<and>
   fst (checkStatus sampleRuntime (sampleParams (js ''WM-AAAAAA'') (js ''ana@example.org''))
          (snd (submitRequest (sampleEnv 0) (sampleParams [] (js ''ana@example.org''))
                  (sampleWorld ''Approved'')))) = CheckOk (js ''Approved'') True \<and>
   fst (submitRequest (sampleEnv 0) (sampleParams [] (js ''ana@example.org''))
          \<lparr>sheet = [], outbox = [], logged = []\<rparr>) =
     SubmitOk (js ''WM-AAAAAA'') submittedMessage \<and>
   fst (checkStatus sampleRuntime (sampleParams (js ''WM-AAAAAA'') (js ''ana@example.org''))
          (snd (submitRequest (sampleEnv 0) (sampleParams [] (js ''ana@example.org''))
                  \<lparr>sheet = [], outbox = [], logged = []\<rparr>))) = Failure notFoundCheck"
proof -
  let ?p = "sampleParams [] (js ''ana@example.org'')"
  let ?q = "sampleParams (js ''WM-AAAAAA'') (js ''ana@example.org'')"
  let ?w = "snd (submitRequest (sampleEnv 0) ?p (sampleWorld ''Approved''))"
  let ?v = "snd (submitRequest (sampleEnv 0) ?p \<lparr>sheet = [], outbox = [], logged = []\<rparr>)"
  have h: "validSubmission ?p"
    by (simp add: validSubmission_def string_defs sample_defs)
  have g: "generateRequestId (sampleEnv 0) = js ''WM-AAAAAA''"
    by (simp add: generateRequestId_def generateLoop.simps sample_defs string_defs)
  have sh: "sheet ?w =
      [sampleHeader, sampleRow ''ana@example.org'' ''Approved'', submittedRow (sampleEnv 0) ?p]"
    by (simp add: submitRequest_valid(2) [OF h] sampleWorld_def sampleLedger_def)
  have loc: "locatedAt sampleRuntime ?q (sheet ?w) 1"
    unfolding sh by (simp add: string_defs sample_defs statement_defs)
  have st: "statusOf (sheet ?w ! Suc 0) = js ''Approved''"
    unfolding sh by (simp add: string_defs sample_defs statement_defs)
  have a: "fst (checkStatus sampleRuntime ?q ?w) = CheckOk (js ''Approved'') True"
    using checkStatus_located [OF loc] by (simp add: st)
  have sv: "sheet ?v = [submittedRow (sampleEnv 0) ?p]"
    by (simp add: submitRequest_valid(2) [OF h])
  have ne: "toUpperCase sampleRuntime (trim (orElse (requestId ?q) [])) \<noteq> [] \<and>
            toLowerCase sampleRuntime (trim (orElse (email ?q) [])) \<noteq> []"
    by (simp add: string_defs sample_defs)
  have b: "fst (checkStatus sampleRuntime ?q ?v) = Failure notFoundCheck"
    using ne by (simp add: checkStatus_def Let_def getSheet_def sv checkLoop_end)
  have c: "fst (submitRequest (sampleEnv 0) ?p (sampleWorld ''Approved'')) =
             SubmitOk (js ''WM-AAAAAA'') submittedMessage"
    "fst (submitRequest (sampleEnv 0) ?p \<lparr>sheet = [], outbox = [], logged = []\<rparr>) =
             SubmitOk (js ''WM-AAAAAA'') submittedMessage"
    by (simp_all add: submitRequest_valid(1) [OF h] g)
  show ?thesis using h a b c by blast
qed

text \<open>
  C5. Every action keeps, row by row, that a record has a download time exactly when
  its status reads \<open>Downloaded\<close>, and so keeps the invariant of the ledger. Across one
  call no row is lost, an old row is unchanged or gets \<open>Downloaded\<close> and the time of
  the call together, a new row is \<open>Pending\<close> with an empty download time, and no
  download time is cleared, whatever the ledger held before. A valid submission appends
  its record, pending and without download time; a download of an approved record
  writes \<open>Downloaded\<close> and the time of the call into that record.
\<close>

theorem api_keeps_download_time_with_status:
  assumes "isoNow e \<noteq> []"
  shows "ledgerStep (isoNow e) (sheet w) (sheet (snd (handleRequest rt e p w))) \<and>
         (ledgerInvariant (sheet w) \<longrightarrow>
            ledgerInvariant (sheet (snd (handleRequest rt e p w)))) \<and>
         (action p = Some (js ''submit'') \<and> validSubmission p \<longrightarrow>
            sheet (snd (handleRequest rt e p w)) = sheet w @ [submittedRow e p] \<and>
            statusOf (submittedRow e p) = js ''Pending'' \<and>
            downloadedAtOf (submittedRow e p) = []) \<and>
         (action p = Some (js ''download'') \<and> locatedAt rt p (sheet w) i \<and>
          statusOf (sheet w ! i) = js ''Approved'' \<longrightarrow>
            sheet (snd (handleRequest rt e p w)) =
              (sheet w)[i := markedRow (isoNow e) (sheet w ! i)] \<and>
            statusOf (markedRow (isoNow e) (sheet w ! i)) = js ''Downloaded'' \<and>
            downloadedAtOf (markedRow (isoNow e) (sheet w ! i)) = isoNow e)"
proof (intro conjI impI)
  show step: "ledgerStep (isoNow e) (sheet w) (sheet (snd (handleRequest rt e p w)))"
    by (rule handleRequest_step [OF assms])
  assume "ledgerInvariant (sheet w)"
  with step show "ledgerInvariant (sheet (snd (handleRequest rt e p w)))"
    by (rule step_keeps_invariant)
next
  assume h: "action p = Some (js ''submit'') \<and> validSubmission p"
  then show "sheet (snd (handleRequest rt e p w)) = sheet w @ [submittedRow e p]"
    by (simp add: handleRequest_def submitRequest_valid(2))
  show "statusOf (submittedRow e p) = js ''Pending''"
    and "downloadedAtOf (submittedRow e p) = []"
    by (simp_all add: submittedRow_cells)
next
  assume h: "action p = Some (js ''download'') \<and> locatedAt rt p (sheet w) i \<and>
          statusOf (sheet w ! i) = js ''Approved''"
  then have i: "i < length (sheet w)" by (simp add: locatedAt_def)
  have "markDownloaded rt e p w =
          (DownloadOk True,
           setValue (Suc i) 10 (isoNow e) (setValue (Suc i) 9 (js ''Downloaded'') w))"
    using h markDownloaded_located [of rt p w i e] by simp
  then show "sheet (snd (handleRequest rt e p w)) =
              (sheet w)[i := markedRow (isoNow e) (sheet w ! i)]"
    using h by (simp add: handleRequest_def sheet_marked [OF i])
  show "statusOf (markedRow (isoNow e) (sheet w ! i)) = js ''Downloaded''"
    and "downloadedAtOf (markedRow (isoNow e) (sheet w ! i)) = isoNow e"
    by (simp_all add: statusOf_markedRow downloadedAtOf_markedRow)
qed

theorem api_keeps_download_time_with_status_witness:
  "isoNow (sampleEnv 0) \<noteq> [] \<and>
   ledgerInvariant (sheet (sampleWorld ''Approved'')) \<and>
   locatedAt sampleRuntime
     ((sampleParams (js ''WM-AAAAAA'') (js ''ana@example.org''))\<lparr>action := Some (js ''download'')\<rparr>)
     (sheet (sampleWorld ''Approved'')) 1 \<and>
   statusOf (sheet (sampleWorld ''Approved'') ! 1) = js ''Approved'' \<and>
   sheet (snd (handleRequest sampleRuntime (sampleEnv 0)
     ((sampleParams (js ''WM-AAAAAA'') (js ''ana@example.org''))\<lparr>action := Some (js ''download'')\<rparr>)
     (sampleWorld ''Approved''))) =
     [sampleHeader,
      [js ''2026-01-01T00:00:00.000Z'', js ''ana@example.org'', js ''Water'', js ''OCHA'', [], [],
       js ''1'', js ''WM-AAAAAA'', js ''Downloaded'', js ''2026-01-02T00:00:00.000Z'']] \<and>
   ledgerInvariant (sheet (snd (handleRequest sampleRuntime (sampleEnv 0)
     ((sampleParams (js ''WM-AAAAAA'') (js ''ana@example.org''))\<lparr>action := Some (js ''download'')\<rparr>)
     (sampleWorld ''Approved'')))) \<and>
   ledgerStep (isoNow (sampleEnv 0)) (sheet (sampleWorld ''Approved''))
     (sheet (snd (handleRequest sampleRuntime (sampleEnv 0)
       ((sampleParams (js ''WM-AAAAAA'') (js ''ana@example.org''))\<lparr>action := Some (js ''download'')\<rparr>)
       (sampleWorld ''Approved''))))"
proof -
  let ?p = "(sampleParams (js ''WM-AAAAAA'') (js ''ana@example.org''))
              \<lparr>action := Some (js ''download'')\<rparr>"
  let ?s' = "sheet (snd (handleRequest sampleRuntime (sampleEnv 0) ?p (sampleWorld ''Approved'')))"
  have h1: "isoNow (sampleEnv 0) \<noteq> []"
    by (simp add: sample_defs)
  have h2: "ledgerInvariant (sheet (sampleWorld ''Approved''))"
    by (simp add: ledgerInvariant_def rowConsistent_def string_defs sample_defs statement_defs)
  have h3: "locatedAt sampleRuntime ?p (sheet (sampleWorld ''Approved'')) 1"
    by (simp add: string_defs sample_defs statement_defs)
  have h4: "statusOf (sheet (sampleWorld ''Approved'') ! 1) = js ''Approved''"
    by (simp add: string_defs sample_defs statement_defs)
  have h5: "action ?p = Some (js ''download'')"
    by simp
  note t = api_keeps_download_time_with_status [OF h1, of "sampleWorld ''Approved''"
      sampleRuntime ?p 1]
  have a: "ledgerStep (isoNow (sampleEnv 0)) (sheet (sampleWorld ''Approved'')) ?s'"
    using t by blast
  have b: "ledgerInvariant ?s'"
    using t h2 by blast
  have c: "?s' = (sheet (sampleWorld ''Approved''))
             [1 := markedRow (isoNow (sampleEnv 0)) (sheet (sampleWorld ''Approved'') ! 1)]"
    using t h3 h4 h5 by blast
  have d: "(sheet (sampleWorld ''Approved''))
             [1 := markedRow (isoNow (sampleEnv 0)) (sheet (sampleWorld ''Approved'') ! 1)] =
     [sampleHeader,
      [js ''2026-01-01T00:00:00.000Z'', js ''ana@example.org'', js ''Water'', js ''OCHA'', [], [],
       js ''1'', js ''WM-AAAAAA'', js ''Downloaded'', js ''2026-01-02T00:00:00.000Z'']]"
    by (simp add: markedRow_def cellAt_def sampleWorld_def sampleLedger_def sampleRow_def
        sampleEnv_def upt_rec)
  show ?thesis
    using h1 h2 h3 h4 a b c d by metis
qed

text \<open>
  C6, as amended. When the credentials address a record whose status reads
  \<open>Pending\<close> or \<open>Rejected\<close> (the record is the first data row that matches them, and
  they are not empty), \<open>markDownloaded\<close> fails with the not-approved message and hands
  the world back as it was: no cell of the ledger is written.
\<close>

theorem download_unapproved_refused:
  assumes "locatedAt rt p (sheet w) i"
    and "statusOf (sheet w ! i) = js ''Pending'' \<or> statusOf (sheet w ! i) = js ''Rejected''"
  shows "markDownloaded rt e p w = (Failure notApproved, w)"
  using assms(2) by (auto simp: markDownloaded_located [OF assms(1)])

theorem download_unapproved_refused_witness:
  "locatedAt sampleRuntime (sampleParams (js ''wm-aaaaaa'') (js '' Ana@Example.org ''))
     (sheet (sampleWorld ''Rejected'')) 1 \<and>
   (statusOf (sheet (sampleWorld ''Rejected'') ! 1) = js ''Pending'' \<or>
    statusOf (sheet (sampleWorld ''Rejected'') ! 1) = js ''Rejected'') \<and>
   markDownloaded sampleRuntime (sampleEnv 0)
     (sampleParams (js ''wm-aaaaaa'') (js '' Ana@Example.org '')) (sampleWorld ''Rejected'') =
   (Failure (js ''This request is not yet approved.''), sampleWorld ''Rejected'')"
proof -
  have h1: "locatedAt sampleRuntime (sampleParams (js ''wm-aaaaaa'') (js '' Ana@Example.org ''))
              (sheet (sampleWorld ''Rejected'')) 1"
    by (simp add: string_defs sample_defs statement_defs)
  have h2: "statusOf (sheet (sampleWorld ''Rejected'') ! 1) = js ''Pending'' \<or>
            statusOf (sheet (sampleWorld ''Rejected'') ! 1) = js ''Rejected''"
    by (simp add: string_defs sample_defs statement_defs)
  have r: "markDownloaded sampleRuntime (sampleEnv 0)
     (sampleParams (js ''wm-aaaaaa'') (js '' Ana@Example.org '')) (sampleWorld ''Rejected'') =
   (Failure (js ''This request is not yet approved.''), sampleWorld ''Rejected'')"
    using download_unapproved_refused [OF h1 h2, of "sampleEnv 0"]
    by (simp add: notApproved_def)
  show ?thesis using h1 h2 r by blast
qed

text \<open>
  C6 as written fails on a record that is not the one its credentials address. In the
  ledger of two records with the same request id and email, \<open>Approved\<close> and then
  \<open>Pending\<close>, a download with these credentials succeeds and writes the first row.
  And for a \<open>Pending\<close> record whose email cell is empty the matching credentials are
  refused as incomplete, not as not approved.
\<close>

theorem download_unapproved_refused_counterexample:
  "statusOf (sheet (sampleLedger [sampleRow ''ana@example.org'' ''Approved'',
                                   sampleRow ''ana@example.org'' ''Pending'']) ! 2) =
     js ''Pending'' \<and>
   matches sampleRuntime
     (normalizedId sampleRuntime (sampleParams (js ''WM-AAAAAA'') (js ''ana@example.org'')))
     (normalizedEmail sampleRuntime (sampleParams (js ''WM-AAAAAA'') (js ''ana@example.org'')))
     (sheet (sampleLedger [sampleRow ''ana@example.org'' ''Approved'',
                           sampleRow ''ana@example.org'' ''Pending'']) ! 2) \<and>
   fst (markDownloaded sampleRuntime (sampleEnv 0)
     (sampleParams (js ''WM-AAAAAA'') (js ''ana@example.org''))
     (sampleLedger [sampleRow ''ana@example.org'' ''Approved'',
                    sampleRow ''ana@example.org'' ''Pending''])) = DownloadOk True \<and>
   statusOf (sheet (snd (markDownloaded sampleRuntime (sampleEnv 0)
     (sampleParams (js ''WM-AAAAAA'') (js ''ana@example.org''))
     (sampleLedger [sampleRow ''ana@example.org'' ''Approved'',
                    sampleRow ''ana@example.org'' ''Pending'']))) ! 1) = js ''Downloaded'' \<and>
   statusOf (sheet (sampleLedger [sampleRow [] ''Pending'']) ! 1) = js ''Pending'' \<and>
   matches sampleRuntime
     (normalizedId sampleRuntime (sampleParams (js ''WM-AAAAAA'') []))
     (normalizedEmail sampleRuntime (sampleParams (js ''WM-AAAAAA'') []))
     (sheet (sampleLedger [sampleRow [] ''Pending'']) ! 1) \<and>
   fst (markDownloaded sampleRuntime (sampleEnv 0) (sampleParams (js ''WM-AAAAAA'') [])
     (sampleLedger [sampleRow [] ''Pending''])) = Failure requiredLookup \<and>
   requiredLookup \<noteq> notApproved"
proof -
  let ?w = "sampleLedger [sampleRow ''ana@example.org'' ''Approved'',
                          sampleRow ''ana@example.org'' ''Pending'']"
  let ?p = "sampleParams (js ''WM-AAAAAA'') (js ''ana@example.org'')"
  let ?w' = "setValue (Suc (Suc 0)) 10 (isoNow (sampleEnv 0))
               (setValue (Suc (Suc 0)) 9 (js ''Downloaded'') ?w)"
  have loc: "locatedAt sampleRuntime ?p (sheet ?w) 1"
    by (simp add: string_defs sample_defs statement_defs)
  have st: "statusOf (sheet ?w ! Suc 0) = js ''Approved''"
    by (simp add: string_defs sample_defs statement_defs)
  have len: "Suc 0 < length (sheet ?w)"
    by (simp add: sample_defs)
  have run: "markDownloaded sampleRuntime (sampleEnv 0) ?p ?w = (DownloadOk True, ?w')"
    using markDownloaded_located [OF loc, of "sampleEnv 0"] by (simp add: st)
  have a: "fst (markDownloaded sampleRuntime (sampleEnv 0) ?p ?w) = DownloadOk True"
    by (simp add: run)
  have "sheet ?w' = (sheet ?w)[Suc 0 := markedRow (isoNow (sampleEnv 0)) (sheet ?w ! Suc 0)]"
    by (rule sheet_marked [OF len])
  then have "sheet ?w' ! Suc 0 = markedRow (isoNow (sampleEnv 0)) (sheet ?w ! Suc 0)"
    using len by simp
  then have a': "statusOf (sheet (snd (markDownloaded sampleRuntime (sampleEnv 0) ?p ?w)) ! 1) =
      js ''Downloaded''"
    by (simp add: run statusOf_markedRow)
  have b: "statusOf (sheet ?w ! 2) = js ''Pending'' \<and>
           matches sampleRuntime (normalizedId sampleRuntime ?p)
             (normalizedEmail sampleRuntime ?p) (sheet ?w ! 2)"
    by (simp add: string_defs sample_defs statement_defs)
  have c: "statusOf (sheet (sampleLedger [sampleRow [] ''Pending'']) ! 1) = js ''Pending'' \<and>
     matches sampleRuntime
       (normalizedId sampleRuntime (sampleParams (js ''WM-AAAAAA'') []))
       (normalizedEmail sampleRuntime (sampleParams (js ''WM-AAAAAA'') []))
       (sheet (sampleLedger [sampleRow [] ''Pending'']) ! 1)"
    by (simp add: string_defs sample_defs statement_defs)
  have d: "fst (markDownloaded sampleRuntime (sampleEnv 0) (sampleParams (js ''WM-AAAAAA'') [])
     (sampleLedger [sampleRow [] ''Pending''])) = Failure requiredLookup"
    by (simp add: markDownloaded_def string_defs sampleParams_def sampleRuntime_def)
  have m: "requiredLookup \<noteq> notApproved"
    by (simp add: requiredLookup_def notApproved_def)
  show ?thesis using a a' b c d m by blast
qed

text \<open>
  C7. \<open>checkStatus\<close> hands the world back unchanged. After any run of check calls the
  world is the one before the run, and each call of the run answers what it answers on
  that world, so equal inputs get equal answers.
\<close>

theorem check_is_read_only:
  "snd (checkStatus rt p w) = w \<and>
   snd (checkAll rt ps w) = w \<and>
   fst (checkAll rt ps w) = map (\<lambda>q. fst (checkStatus rt q w)) ps"
proof -
  have one: "\<And>q v. snd (checkStatus rt q v) = v"
    by (simp add: checkStatus_def Let_def)
  have "checkAll rt ps w = (map (\<lambda>q. fst (checkStatus rt q w)) ps, w)"
  proof (induction ps)
    case Nil
    show ?case by simp
  next
    case (Cons q qs)
    obtain r where r: "checkStatus rt q w = (r, w)"
      using one [of q w] by (metis prod.collapse)
    show ?case using Cons by (simp add: r)
  qed
  then show ?thesis using one by simp
qed

text \<open>
  C8. For a submission that passes validation, whatever \<open>MailApp.sendEmail\<close> does
  (return, or throw with any message), \<open>submitRequest\<close> answers with success and the
  generated request id, and appends the record of the submission to the ledger. When the
  mail goes out it carries the request details; a mail error only adds a line to the log.
\<close>

theorem submit_ignores_mail_failure:
  assumes "validSubmission p"
  shows "fst (submitRequest (e\<lparr>mailError := m\<rparr>) p w) =
           SubmitOk (generateRequestId e) submittedMessage \<and>
         sheet (snd (submitRequest (e\<lparr>mailError := m\<rparr>) p w)) = sheet w @ [submittedRow e p] \<and>
         (case m of
            None \<Rightarrow>
              logged (snd (submitRequest (e\<lparr>mailError := m\<rparr>) p w)) = logged w \<and>
              outbox (snd (submitRequest (e\<lparr>mailError := m\<rparr>) p w)) =
                outbox w @
                  [(NOTIFY_EMAIL,
                    mailSubject (submittedRow e p ! 7) (submittedRow e p ! 1),
                    mailBody (submittedRow e p ! 7) (submittedRow e p ! 1) (submittedRow e p ! 2)
                      (submittedRow e p ! 6) (submittedRow e p ! 3) (submittedRow e p ! 4)
                      (submittedRow e p ! 5))]
          | Some msg \<Rightarrow>
              logged (snd (submitRequest (e\<lparr>mailError := m\<rparr>) p w)) =
                logged w @ [js ''Email notification failed: '' @ msg] \<and>
              outbox (snd (submitRequest (e\<lparr>mailError := m\<rparr>) p w)) = outbox w)"
proof -
  have "fst (submitRequest (e\<lparr>mailError := m\<rparr>) p w) =
          SubmitOk (generateRequestId e) submittedMessage"
    using submitRequest_valid(1) [OF assms, of "e\<lparr>mailError := m\<rparr>" w] by simp
  moreover have "sheet (snd (submitRequest (e\<lparr>mailError := m\<rparr>) p w)) =
      sheet w @ [submittedRow e p]"
    using submitRequest_valid(2) [OF assms, of "e\<lparr>mailError := m\<rparr>" w] by simp
  moreover have "case m of
            None \<Rightarrow>
              logged (snd (submitRequest (e\<lparr>mailError := m\<rparr>) p w)) = logged w \<and>
              outbox (snd (submitRequest (e\<lparr>mailError := m\<rparr>) p w)) =
                outbox w @
                  [(NOTIFY_EMAIL,
                    mailSubject (submittedRow e p ! 7) (submittedRow e p ! 1),
                    mailBody (submittedRow e p ! 7) (submittedRow e p ! 1) (submittedRow e p ! 2)
                      (submittedRow e p ! 6) (submittedRow e p ! 3) (submittedRow e p ! 4)
                      (submittedRow e p ! 5))]
          | Some msg \<Rightarrow>
              logged (snd (submitRequest (e\<lparr>mailError := m\<rparr>) p w)) =
                logged w @ [js ''Email notification failed: '' @ msg] \<and>
              outbox (snd (submitRequest (e\<lparr>mailError := m\<rparr>) p w)) = outbox w"
    using assms
    by (auto simp: submitRequest_def validSubmission_def submittedRow_def Let_def appendRow_def
        sendEmail_def loggerLog_def split: option.splits)
  ultimately show ?thesis by blast
qed

theorem submit_ignores_mail_failure_witness:
  "validSubmission (sampleParams [] (js ''ana@example.org'')) \<and>
   fst (submitRequest ((sampleEnv 0)\<lparr>mailError := Some (js ''Service invoked too many times'')\<rparr>)
          (sampleParams [] (js ''ana@example.org'')) (sampleWorld ''Pending'')) =
     SubmitOk (js ''WM-AAAAAA'') submittedMessage \<and>
   sheet (snd (submitRequest
          ((sampleEnv 0)\<lparr>mailError := Some (js ''Service invoked too many times'')\<rparr>)
          (sampleParams [] (js ''ana@example.org'')) (sampleWorld ''Pending''))) =
     [sampleHeader, sampleRow ''ana@example.org'' ''Pending'',
      [js ''2026-01-02T00:00:00.000Z'', js ''ana@example.org'', js ''Water'', js ''OCHA'', [], [],
       js ''1'', js ''WM-AAAAAA'', js ''Pending'', []]]"
proof -
  let ?p = "sampleParams [] (js ''ana@example.org'')"
  let ?e = "(sampleEnv 0)\<lparr>mailError := Some (js ''Service invoked too many times'')\<rparr>"
  have h: "validSubmission ?p"
    by (simp add: validSubmission_def string_defs sample_defs)
  have g: "generateRequestId (sampleEnv 0) = js ''WM-AAAAAA''"
    by (simp add: generateRequestId_def generateLoop.simps sample_defs string_defs)
  have row: "submittedRow (sampleEnv 0) ?p =
      [js ''2026-01-02T00:00:00.000Z'', js ''ana@example.org'', js ''Water'', js ''OCHA'', [], [],
       js ''1'', js ''WM-AAAAAA'', js ''Pending'', []]"
    unfolding submittedRow_def g
    by (simp add: trim_def isWhiteSpace_def orElse_def js_def sampleParams_def sampleEnv_def)
  note t = submit_ignores_mail_failure [OF h, where e = "sampleEnv 0"
      and m = "Some (js ''Service invoked too many times'')" and w = "sampleWorld ''Pending''"]
  have a: "fst (submitRequest ?e ?p (sampleWorld ''Pending'')) =
             SubmitOk (generateRequestId (sampleEnv 0)) submittedMessage"
    using t by (rule conjunct1)
  have b: "sheet (snd (submitRequest ?e ?p (sampleWorld ''Pending''))) =
             sheet (sampleWorld ''Pending'') @ [submittedRow (sampleEnv 0) ?p]"
    using t by (rule conjunct1 [OF conjunct2])
  have c: "sheet (sampleWorld ''Pending'') = [sampleHeader, sampleRow ''ana@example.org'' ''Pending'']"
    by (simp add: sampleWorld_def sampleLedger_def)
  show ?thesis
    using h a b unfolding g row c by simp
qed

text \<open>
  C9. The script takes no lock and does not read the status again before it writes:
  \<open>markDownloaded\<close> decides on the rows that \<open>getValues\<close> returned. When two download
  calls for an \<open>Approved\<close> record both read the rows before either writes, both
  succeed with \<open>canDownload = true\<close>.
\<close>

theorem concurrent_downloads_both_succeed:
  "statusOf (sheet (sampleWorld ''Approved'') ! 1) = js ''Approved'' \<and>
   fst (bothReadThenWrite sampleRuntime (sampleEnv 0) (sampleEnv 0)
          (sampleParams (js ''WM-AAAAAA'') (js ''ana@example.org''))
          (sampleWorld ''Approved'')) = DownloadOk True \<and>
   fst (snd (bothReadThenWrite sampleRuntime (sampleEnv 0) (sampleEnv 0)
          (sampleParams (js ''WM-AAAAAA'') (js ''ana@example.org''))
          (sampleWorld ''Approved''))) = DownloadOk True"
proof -
  have h1: "locatedAt sampleRuntime (sampleParams (js ''WM-AAAAAA'') (js ''ana@example.org''))
              (sheet (sampleWorld ''Approved'')) 1"
    by (simp add: string_defs sample_defs statement_defs)
  have h2: "statusOf (sheet (sampleWorld ''Approved'') ! 1) = js ''Approved''"
    by (simp add: string_defs sample_defs statement_defs)
  show ?thesis
    using h2 race_two_successes [OF h1 h2, of "sampleEnv 0" "sampleEnv 0"] by blast
qed

text \<open>
  C10. When the trimmed request id or the trimmed email is empty, \<open>checkStatus\<close> and
  \<open>markDownloaded\<close> answer with the error \<open>Request ID and email are required.\<close>,
  which is neither of the two not-found messages. The answer is the same whatever the
  ledger holds, and the world is handed back as it was.
\<close>

theorem lookup_requires_both_fields:
  assumes "unicodeCase rt"
    and "trim (orElse (requestId p) []) = [] \<or> trim (orElse (email p) []) = []"
  shows "checkStatus rt p w = (Failure requiredLookup, w) \<and>
         markDownloaded rt e p w = (Failure requiredLookup, w) \<and>
         fst (checkStatus rt p w) = fst (checkStatus rt p w') \<and>
         fst (markDownloaded rt e p w) = fst (markDownloaded rt e' p w') \<and>
         requiredLookup = js ''Request ID and email are required.'' \<and>
         requiredLookup \<noteq> notFoundCheck \<and> requiredLookup \<noteq> notFoundDownload"
proof -
  have "toUpperCase rt (trim (orElse (requestId p) [])) = [] \<or>
        toLowerCase rt (trim (orElse (email p) [])) = []"
    using assms by (auto simp: unicodeCase_def)
  then show ?thesis
    by (auto simp: checkStatus_def markDownloaded_def requiredLookup_def notFoundCheck_def
        notFoundDownload_def)
qed

theorem lookup_requires_both_fields_witness:
  "unicodeCase sampleRuntime \<and>
   (trim (orElse (requestId (sampleParams (js ''WM-AAAAAA'') [0x00A0, 0x0020])) []) = [] \<or>
    trim (orElse (email (sampleParams (js ''WM-AAAAAA'') [0x00A0, 0x0020])) []) = []) \<and>
   checkStatus sampleRuntime (sampleParams (js ''WM-AAAAAA'') [0x00A0, 0x0020])
     (sampleWorld ''Approved'') =
     (Failure (js ''Request ID and email are required.''), sampleWorld ''Approved'') \<and>
   markDownloaded sampleRuntime (sampleEnv 0) (sampleParams (js ''WM-AAAAAA'') [0x00A0, 0x0020])
     (sampleWorld ''Approved'') =
     (Failure (js ''Request ID and email are required.''), sampleWorld ''Approved'')"
proof -
  let ?p = "sampleParams (js ''WM-AAAAAA'') [0x00A0, 0x0020]"
  have h: "trim (orElse (requestId ?p) []) = [] \<or> trim (orElse (email ?p) []) = []"
    by (simp add: trim_def isWhiteSpace_def orElse_def sampleParams_def)
  note t = lookup_requires_both_fields [OF unicodeCase_sample h,
      of "sampleWorld ''Approved''" "sampleEnv 0"]
  have r: "checkStatus sampleRuntime ?p (sampleWorld ''Approved'') =
             (Failure (js ''Request ID and email are required.''), sampleWorld ''Approved'') \<and>
           markDownloaded sampleRuntime (sampleEnv 0) ?p (sampleWorld ''Approved'') =
             (Failure (js ''Request ID and email are required.''), sampleWorld ''Approved'')"
    using t by metis
  show ?thesis using unicodeCase_sample h r by blast
qed

end
